theory Spec2Isabelle
  imports Main "HOL-Library.Word" "HOL-Library.Sublist"
begin

unbundle bit_operations_syntax

section \<open>Data model of the normal IPC process (src/kernel/normal.c)\<close>

text \<open>
  The structures used by \<^verbatim>\<open>normal.c\<close> are declared in \<^verbatim>\<open>rlite-kernel.h\<close> and
  \<^verbatim>\<open>rlite/utils.h\<close>, which are not among the sources. The records below carry the
  fields that \<^verbatim>\<open>normal.c\<close> reads and writes, under the names it uses. Sequence
  numbers, window edges and addresses are \<^verbatim>\<open>uint64_t\<close> (the locals of
  \<^verbatim>\<open>normal.c\<close> that hold them are declared so), PDU types are \<^verbatim>\<open>uint8_t\<close>;
  queue lengths are taken as \<^verbatim>\<open>unsigned int\<close>, counters and times as 64-bit.
\<close>

record conn_id_t =
  qos_id :: "32 word"
  dst_cep :: "32 word"
  src_cep :: "32 word"

record rina_pci =
  dst_addr :: "64 word"
  src_addr :: "64 word"
  conn_id :: conn_id_t
  pdu_type :: "8 word"
  pdu_flags :: "8 word"
  pdu_len :: "16 word"
  seqnum :: "64 word"

text \<open>\<^verbatim>\<open>struct rina_pci_ctrl\<close>: the member \<^verbatim>\<open>base\<close> is the parent record.\<close>

record rina_pci_ctrl = rina_pci +
  pcic_last_ctrl_seq_num_rcvd :: "64 word"
  ack_nack_seq_num :: "64 word"
  new_rwe :: "64 word"
  new_lwe :: "64 word"
  my_rwe :: "64 word"
  my_lwe :: "64 word"

text \<open>
  \<^verbatim>\<open>struct rlite_buf\<close>. \<open>pci\<close> is the header at \<^verbatim>\<open>RLITE_BUF_PCI(rb)\<close>, which
  \<^verbatim>\<open>RLITE_BUF_PCI_CTRL(rb)\<close> reads as a control header; \<open>headroom\<close> counts the
  headers the reserve in front of it can still take.
\<close>

record rlite_buf =
  pci :: rina_pci_ctrl
  len :: "64 word"
  headroom :: nat
  rtx_jiffies :: "64 word"
  tx_compl_flow :: "nat option"
  payload :: "8 word list"

datatype errno = EAGAIN | ENOSPC | ENOMEM | EHOSTUNREACH | EINVAL | EOTHER int

text \<open>A return value: \<open>Inr ()\<close> is 0, \<open>Inl e\<close> is \<^verbatim>\<open>-e\<close>.\<close>

type_synonym ret = "errno + unit"

text \<open>
  Calls that leave the protocol machine, in the order the code makes them:
  \<^verbatim>\<open>rlite_buf_free\<close>, \<^verbatim>\<open>rlite_sdu_rx_flow\<close> (delivery to the upper layer, with
  its \<^verbatim>\<open>qlimit\<close> argument), \<^verbatim>\<open>rmt_tx\<close> (destination, buffer, \<^verbatim>\<open>maysleep\<close>) and
  \<^verbatim>\<open>rlite_write_restart_flow\<close>.
\<close>

datatype effect =
    Free rlite_buf
  | SduRxFlow rlite_buf bool
  | RmtTx "64 word" rlite_buf bool
  | WriteRestart

text \<open>
  Constants and helpers of the absent headers, taken as parameters: the PDU type
  codes, \<^verbatim>\<open>sizeof(struct rina_pci)\<close>, \<^verbatim>\<open>MPL_MSECS_DEFAULT\<close> and
  \<^verbatim>\<open>msecs_to_jiffies\<close>.
\<close>

record rl_consts =
  PDU_T_DT :: "8 word"
  PDU_T_CTRL_MASK :: "8 word"
  PDU_T_ACK_BIT :: "8 word"
  PDU_T_FC_BIT :: "8 word"
  PDU_T_ACK_MASK :: "8 word"
  PDU_T_ACK :: "8 word"
  sizeof_pci :: "64 word"
  MPL_MSECS_DEFAULT :: "64 word"
  msecs_to_jiffies :: "64 word \<Rightarrow> 64 word"

text \<open>
  What one call finds around it: the kernel clock \<^verbatim>\<open>jiffies\<close>, whether
  \<^verbatim>\<open>rlite_buf_clone\<close> of a buffer succeeds, and what \<^verbatim>\<open>rlite_buf_alloc_ctrl\<close>
  returns (\<open>None\<close> is \<^verbatim>\<open>NULL\<close>).
\<close>

record rl_env =
  jiffies :: "64 word"
  clone_ok :: "rlite_buf \<Rightarrow> bool"
  alloc_ctrl :: "rlite_buf option"

definition rlite_buf_clone :: "rl_env \<Rightarrow> rlite_buf \<Rightarrow> rlite_buf option" where
  "rlite_buf_clone E rb = (if clone_ok E rb then Some rb else None)"

text \<open>
  Modelled from the spec: \<^verbatim>\<open>rlite_buf_pci_push\<close> and \<^verbatim>\<open>rlite_buf_pci_pop\<close> are
  defined in an absent header. The spec says: "push_pci() / pop_pci() move the
  logical start; fail if the reserve is exhausted or payload underflows."
  \<open>None\<close> is the non-zero return.
\<close>

definition rlite_buf_pci_push :: "rl_consts \<Rightarrow> rlite_buf \<Rightarrow> rlite_buf option" where
  "rlite_buf_pci_push K rb =
     (if headroom rb = 0 then None
      else Some (rb\<lparr>headroom := headroom rb - 1, len := len rb + sizeof_pci K\<rparr>))"

definition rlite_buf_pci_pop :: "rl_consts \<Rightarrow> rlite_buf \<Rightarrow> rlite_buf option" where
  "rlite_buf_pci_pop K rb =
     (if len rb < sizeof_pci K then None
      else Some (rb\<lparr>headroom := headroom rb + 1, len := len rb - sizeof_pci K\<rparr>))"

subsection \<open>Flow configuration and DTP state\<close>

datatype fc_type_t = RLITE_FC_T_NONE | RLITE_FC_T_WIN

record fc_config =
  fc_type :: fc_type_t
  w_max_cwq_len :: "32 word"
  w_initial_credit :: "64 word"

record rtx_config =
  initial_tr :: "64 word"
  data_rxms_max :: "64 word"

record dtcp_config =
  flow_control :: bool
  fc :: fc_config
  rtx_control :: bool
  rtx :: rtx_config
  initial_a :: "64 word"

record flow_config =
  dtcp_present :: bool
  in_order_delivery :: bool
  max_sdu_gap :: "64 word"
  dtcp :: dtcp_config

text \<open>
  \<^verbatim>\<open>struct dtp\<close>. The three queues are the lists \<open>cwq\<close>, \<open>rtxq\<close> and \<open>seqq\<close>, head
  first. A timer is \<open>Some expires\<close> while pending. \<open>rtx_tmr_next\<close> points into
  \<open>rtxq\<close>: \<open>Some i\<close> is the \<open>i\<close>-th buffer of the queue, \<open>None\<close> is \<^verbatim>\<open>NULL\<close>.
\<close>

record dtp =
  set_drf :: bool
  snd_lwe :: "64 word"
  snd_rwe :: "64 word"
  next_seq_num_to_send :: "64 word"
  last_seq_num_sent :: "64 word"
  last_ctrl_seq_num_rcvd :: "64 word"
  cwq :: "rlite_buf list"
  cwq_len :: "32 word"
  max_cwq_len :: "32 word"
  snd_inact_tmr :: "64 word option"
  rtxq :: "rlite_buf list"
  rtxq_len :: "32 word"
  max_rtxq_len :: "32 word"
  rtx_tmr :: "64 word option"
  rtx_tmr_next :: "nat option"
  rtx_tmr_int :: "64 word"
  rcv_lwe :: "64 word"
  rcv_lwe_priv :: "64 word"
  rcv_rwe :: "64 word"
  max_seq_num_rcvd :: "64 word"
  last_snd_data_ack :: "64 word"
  next_snd_ctl_seq :: "64 word"
  rcv_inact_tmr :: "64 word option"
  seqq :: "rlite_buf list"
  seqq_len :: "32 word"
  mpl_r_a :: "64 word"

record rl_flow_stats =
  tx_pkt :: "64 word"
  tx_byte :: "64 word"
  tx_err :: "64 word"
  rx_pkt :: "64 word"
  rx_byte :: "64 word"
  rx_err :: "64 word"

text \<open>\<^verbatim>\<open>struct flow_entry\<close>; \<open>upper_ipcp\<close> is \<^verbatim>\<open>flow->upper.ipcp\<close>.\<close>

record flow_entry =
  cfg :: flow_config
  dtp :: dtp
  stats :: rl_flow_stats
  remote_addr :: "64 word"
  remote_cep :: "32 word"
  local_cep :: "32 word"
  upper_ipcp :: "nat option"

section \<open>The relay and multiplexing task: \<^verbatim>\<open>rmt_tx\<close>\<close>

text \<open>
  The part of the lower IPCP (\<^verbatim>\<open>lower_flow->txrx.ipcp\<close>) that \<^verbatim>\<open>rmt_tx\<close> touches:
  its deferred-send queue.
\<close>

record lower_ipcp =
  rmtq :: "rlite_buf list"
  rmtq_len :: "32 word"

text \<open>
  What \<^verbatim>\<open>rmt_tx\<close> finds around it: the forwarding table (\<^verbatim>\<open>pduft_lookup\<close> gives the
  handle of a lower flow, or \<open>None\<close>), and the values that the lower IPCP's
  \<^verbatim>\<open>sdu_write\<close> returns, one for each call in turn.
\<close>

record rmt_env =
  pduft :: "64 word \<Rightarrow> nat option"
  lower_writes :: "ret list"

definition RMTQ_MAX_LEN :: "32 word" where
  "RMTQ_MAX_LEN = 64"

text \<open>
  The result of \<^verbatim>\<open>rmt_tx\<close>: a return value, or the hand-over of the buffer to this
  IPCP's own \<^verbatim>\<open>sdu_rx\<close> (loopback), whose return value \<^verbatim>\<open>rmt_tx\<close> passes on.
\<close>

datatype rmt_ret = Ret ret | Loopback rlite_buf

text \<open>
  The \<^verbatim>\<open>for (;;)\<close> loop of \<^verbatim>\<open>rmt_tx\<close>. A sleeping caller retries after each
  \<^verbatim>\<open>-EAGAIN\<close>; \<open>None\<close> says that it is still waiting when the listed returns of
  the lower write are used up.
\<close>

fun rmt_tx_loop ::
  "ret list \<Rightarrow> bool \<Rightarrow> nat \<Rightarrow> lower_ipcp \<Rightarrow> rlite_buf \<Rightarrow> (ret \<times> lower_ipcp \<times> effect list) option"
where
  "rmt_tx_loop [] maysleep lower_flow lip rb = None"
| "rmt_tx_loop (r # rs) maysleep lower_flow lip rb =
     (if r = Inl EAGAIN then
        (if \<not> maysleep then
           (if rmtq_len lip < RMTQ_MAX_LEN then
              Some (r, lip\<lparr>rmtq := rmtq lip @ [rb\<lparr>tx_compl_flow := Some lower_flow\<rparr>],
                            rmtq_len := rmtq_len lip + 1\<rparr>, [])
            else Some (r, lip, [Free rb]))
         else rmt_tx_loop rs maysleep lower_flow lip rb)
      else Some (r, lip, []))"

definition rmt_tx ::
  "rmt_env \<Rightarrow> 64 word \<Rightarrow> lower_ipcp \<Rightarrow> 64 word \<Rightarrow> rlite_buf \<Rightarrow> bool
     \<Rightarrow> (rmt_ret \<times> lower_ipcp \<times> effect list) option"
where
  "rmt_tx R ipcp_addr lip dst rb maysleep =
     (case pduft R dst of
        None \<Rightarrow>
          if dst \<noteq> ipcp_addr then Some (Ret (Inl EHOSTUNREACH), lip, [Free rb])
          else Some (Loopback rb, lip, [])
      | Some lower_flow \<Rightarrow>
          (case rmt_tx_loop (lower_writes R) maysleep lower_flow lip rb of
             None \<Rightarrow> None
           | Some (r, lip', effs) \<Rightarrow> Some (Ret r, lip', effs)))"

section \<open>Flow initialisation\<close>

definition RTX_MSECS_DEFAULT :: "64 word" where
  "RTX_MSECS_DEFAULT = 1000"

definition DATA_RXMS_MAX_DEFAULT :: "64 word" where
  "DATA_RXMS_MAX_DEFAULT = 10"

text \<open>
  \<^verbatim>\<open>rlite_normal_flow_init\<close>. \<open>max_pdu_life\<close> is \<^verbatim>\<open>ipcp->dif->max_pdu_life\<close>, or
  \<open>None\<close> when the IPCP has no DIF. The assignment of the \<^verbatim>\<open>sdu_rx_consumed\<close> hook
  and of the timer callbacks has no counterpart here: the callbacks are the
  functions of the same names below.
\<close>

definition rlite_normal_flow_init :: "rl_consts \<Rightarrow> 64 word option \<Rightarrow> flow_entry \<Rightarrow> flow_entry" where
  "rlite_normal_flow_init K max_pdu_life flow =
     (let c = cfg flow;
          mpl0 = (case max_pdu_life of None \<Rightarrow> 0 | Some l \<Rightarrow> msecs_to_jiffies K l);
          mpl = (if mpl0 = 0 then msecs_to_jiffies K (MPL_MSECS_DEFAULT K) else mpl0);
          c = (if rtx_control (dtcp c) \<and> initial_tr (rtx (dtcp c)) = 0
               then c\<lparr>dtcp := (dtcp c)\<lparr>rtx := (rtx (dtcp c))\<lparr>initial_tr := RTX_MSECS_DEFAULT\<rparr>\<rparr>\<rparr>
               else c);
          c = (if rtx_control (dtcp c) \<and> data_rxms_max (rtx (dtcp c)) = 0
               then c\<lparr>dtcp := (dtcp c)\<lparr>rtx := (rtx (dtcp c))\<lparr>data_rxms_max := DATA_RXMS_MAX_DEFAULT\<rparr>\<rparr>\<rparr>
               else c);
          r = msecs_to_jiffies K (initial_tr (rtx (dtcp c))) * data_rxms_max (rtx (dtcp c));
          d = (dtp flow)\<lparr>
                set_drf := True,
                next_seq_num_to_send := 0,
                snd_lwe := 0,
                snd_rwe := 0,
                last_seq_num_sent := - 1,
                rcv_lwe := 0,
                rcv_lwe_priv := 0,
                rcv_rwe := 0,
                max_seq_num_rcvd := - 1,
                last_snd_data_ack := 0,
                next_snd_ctl_seq := 0,
                last_ctrl_seq_num_rcvd := 0,
                mpl_r_a := mpl + r + msecs_to_jiffies K (initial_a (dtcp c)),
                rtx_tmr_next := None,
                rtx_tmr_int := msecs_to_jiffies K (initial_tr (rtx (dtcp c)))\<rparr>;
          d = (if fc_type (fc (dtcp c)) = RLITE_FC_T_WIN
               then d\<lparr>max_cwq_len := w_max_cwq_len (fc (dtcp c)),
                      snd_rwe := snd_rwe d + w_initial_credit (fc (dtcp c)),
                      rcv_rwe := rcv_rwe d + w_initial_credit (fc (dtcp c))\<rparr>
               else d);
          d = (if rtx_control (dtcp c) then d\<lparr>max_rtxq_len := 64\<rparr> else d)
      in flow\<lparr>cfg := c, dtp := d\<rparr>)"

section \<open>The send path\<close>

text \<open>
  \<^verbatim>\<open>rlite_rtxq_push\<close>, called under the DTP lock: clone the buffer, stamp the
  clone's deadline, append it to \<open>rtxq\<close>, and start the timer on it when no timer
  is pending.
\<close>

definition rlite_rtxq_push :: "rl_env \<Rightarrow> dtp \<Rightarrow> rlite_buf \<Rightarrow> ret \<times> dtp" where
  "rlite_rtxq_push E d rb =
     (case rlite_buf_clone E rb of
        None \<Rightarrow> (Inl ENOMEM, d)
      | Some crb0 \<Rightarrow>
          (let crb = crb0\<lparr>rtx_jiffies := jiffies E + rtx_tmr_int d\<rparr>;
               d1 = d\<lparr>rtxq := rtxq d @ [crb], rtxq_len := rtxq_len d + 1\<rparr>;
               d2 = (if rtx_tmr d1 = None
                     then d1\<lparr>rtx_tmr_next := Some (length (rtxq d)),
                             rtx_tmr := Some (rtx_jiffies crb)\<rparr>
                     else d1)
           in (Inr (), d2)))"

text \<open>
  The header that \<^verbatim>\<open>rlite_normal_sdu_write\<close> writes into the pushed PCI.
\<close>

definition dt_pci_stamp :: "rl_consts \<Rightarrow> 64 word \<Rightarrow> flow_entry \<Rightarrow> rlite_buf \<Rightarrow> rlite_buf" where
  "dt_pci_stamp K ipcp_addr flow rb =
     rb\<lparr>pci := (pci rb)\<lparr>
           dst_addr := remote_addr flow,
           src_addr := ipcp_addr,
           conn_id := \<lparr>qos_id = 0, dst_cep = remote_cep flow, src_cep = local_cep flow\<rparr>,
           pdu_type := PDU_T_DT K,
           pdu_flags := (if set_drf (dtp flow) then 1 else 0),
           pdu_len := ucast (len rb),
           seqnum := next_seq_num_to_send (dtp flow)\<rparr>\<rparr>"

text \<open>
  \<^verbatim>\<open>rlite_normal_sdu_write\<close> up to its last \<^verbatim>\<open>spin_unlock_bh\<close>. The result is the
  value returned (\<open>Inl\<close>), or the buffer still owned at that point (\<open>Inr\<close>; \<open>None\<close>
  when it went to \<open>cwq\<close>), with the flow and the buffers freed.
\<close>

definition sdu_write_locked ::
  "rl_consts \<Rightarrow> rl_env \<Rightarrow> 64 word \<Rightarrow> flow_entry \<Rightarrow> rlite_buf
     \<Rightarrow> (errno + rlite_buf option) \<times> flow_entry \<times> effect list"
where
  "sdu_write_locked K E ipcp_addr flow0 rb0 =
     (let c = cfg flow0;
          flow = (if dtcp_present c
                  then flow0\<lparr>dtp := (dtp flow0)\<lparr>snd_inact_tmr :=
                                Some (jiffies E + 3 * mpl_r_a (dtp flow0))\<rparr>\<rparr>
                  else flow0);
          d = dtp flow
      in if (fc_type (fc (dtcp c)) = RLITE_FC_T_WIN \<and>
               next_seq_num_to_send d > snd_rwe d \<and> cwq_len d \<ge> max_cwq_len d) \<or>
            (rtx_control (dtcp c) \<and> rtxq_len d \<ge> max_rtxq_len d)
         then (Inl EAGAIN, flow, [])
         else
           (case rlite_buf_pci_push K rb0 of
              None \<Rightarrow>
                (Inl ENOSPC, flow\<lparr>stats := (stats flow)\<lparr>tx_err := tx_err (stats flow) + 1\<rparr>\<rparr>,
                 [Free rb0])
            | Some rb1 \<Rightarrow>
                (let rb = dt_pci_stamp K ipcp_addr flow rb1;
                     s = seqnum (pci rb);
                     st = (stats flow)\<lparr>tx_pkt := tx_pkt (stats flow) + 1,
                                         tx_byte := tx_byte (stats flow) + len rb\<rparr>;
                     d1 = d\<lparr>next_seq_num_to_send := next_seq_num_to_send d + 1,
                            set_drf := False\<rparr>
                 in if \<not> dtcp_present c then
                      (Inr (Some rb),
                       flow\<lparr>stats := st,
                            dtp := d1\<lparr>snd_lwe := next_seq_num_to_send d1,
                                      last_seq_num_sent := s\<rparr>\<rparr>, [])
                    else
                      (let (own, d2) =
                             (if fc_type (fc (dtcp c)) = RLITE_FC_T_WIN then
                                (if s > snd_rwe d1
                                 then (False, d1\<lparr>cwq := cwq d1 @ [rb],
                                                 cwq_len := cwq_len d1 + 1\<rparr>)
                                 else (True, d1\<lparr>snd_lwe := next_seq_num_to_send d1,
                                                last_seq_num_sent := s\<rparr>))
                              else (True, d1))
                       in if own \<and> rtx_control (dtcp c) then
                            (case rlite_rtxq_push E d2 rb of
                               (Inl e, d3) \<Rightarrow>
                                 (Inl e,
                                  flow\<lparr>stats := st\<lparr>tx_pkt := tx_pkt st - 1,
                                                     tx_byte := tx_byte st - len rb,
                                                     tx_err := tx_err st + 1\<rparr>,
                                       dtp := d3\<rparr>,
                                  [Free rb])
                             | (Inr u, d3) \<Rightarrow>
                                 (Inr (Some rb), flow\<lparr>stats := st, dtp := d3\<rparr>, []))
                          else (Inr (if own then Some rb else None),
                                flow\<lparr>stats := st, dtp := d2\<rparr>, [])))))"

text \<open>
  \<^verbatim>\<open>rlite_normal_sdu_write\<close>: the part under the lock, then \<^verbatim>\<open>rmt_tx\<close> on the
  buffer when it is still owned. \<open>None\<close> is a caller that sleeps in \<^verbatim>\<open>rmt_tx\<close>.
\<close>

definition rlite_normal_sdu_write ::
  "rl_consts \<Rightarrow> rl_env \<Rightarrow> rmt_env \<Rightarrow> 64 word \<Rightarrow> lower_ipcp \<Rightarrow> flow_entry \<Rightarrow> rlite_buf \<Rightarrow> bool
     \<Rightarrow> (rmt_ret \<times> flow_entry \<times> lower_ipcp \<times> effect list) option"
where
  "rlite_normal_sdu_write K E R ipcp_addr lip flow rb maysleep =
     (case sdu_write_locked K E ipcp_addr flow rb of
        (Inl e, flow', effs) \<Rightarrow> Some (Ret (Inl e), flow', lip, effs)
      | (Inr None, flow', effs) \<Rightarrow> Some (Ret (Inr ()), flow', lip, effs)
      | (Inr (Some rb'), flow', effs) \<Rightarrow>
          (case rmt_tx R ipcp_addr lip (remote_addr flow') rb' maysleep of
             None \<Rightarrow> None
           | Some (r, lip', effs') \<Rightarrow> Some (r, flow', lip', effs @ effs')))"

section \<open>Control PDUs sent by the receiver\<close>

text \<open>
  \<^verbatim>\<open>ctrl_pdu_alloc\<close>: a control buffer stamped with the next control sequence
  number and the current window edges, or \<open>None\<close> when the allocation fails.
\<close>

definition ctrl_pdu_alloc ::
  "rl_env \<Rightarrow> 64 word \<Rightarrow> flow_entry \<Rightarrow> 8 word \<Rightarrow> 64 word \<Rightarrow> rlite_buf option \<times> flow_entry"
where
  "ctrl_pdu_alloc E ipcp_addr flow ty ack =
     (case alloc_ctrl E of
        None \<Rightarrow> (None, flow)
      | Some rb \<Rightarrow>
          (Some (rb\<lparr>pci := \<lparr>
                   dst_addr = remote_addr flow,
                   src_addr = ipcp_addr,
                   conn_id = \<lparr>qos_id = 0, dst_cep = remote_cep flow, src_cep = local_cep flow\<rparr>,
                   pdu_type = ty,
                   pdu_flags = 0,
                   pdu_len = ucast (len rb),
                   seqnum = next_snd_ctl_seq (dtp flow),
                   pcic_last_ctrl_seq_num_rcvd = last_ctrl_seq_num_rcvd (dtp flow),
                   ack_nack_seq_num = ack,
                   new_rwe = rcv_rwe (dtp flow),
                   new_lwe = rcv_lwe (dtp flow),
                   my_rwe = snd_rwe (dtp flow),
                   my_lwe = snd_lwe (dtp flow)\<rparr>\<rparr>),
           flow\<lparr>dtp := (dtp flow)\<lparr>next_snd_ctl_seq := next_snd_ctl_seq (dtp flow) + 1\<rparr>\<rparr>))"

text \<open>
  \<^verbatim>\<open>sdu_rx_sv_update\<close>, called under the DTP lock after \<open>rcv_lwe\<close> was updated,
  in its three steps: the receiver's right window edge (policy RcvrFlowControl),
  the choice of the PDU type and of the sequence number acknowledged (policies
  RcvrAck and ReceivingFlowControl; type 0 is no PDU), and the allocation.
\<close>

definition rcvr_flow_control :: "flow_entry \<Rightarrow> flow_entry" where
  "rcvr_flow_control flow =
     (if flow_control (dtcp (cfg flow)) \<and> fc_type (fc (dtcp (cfg flow))) = RLITE_FC_T_WIN
      then flow\<lparr>dtp := (dtp flow)\<lparr>rcv_rwe :=
                   rcv_lwe (dtp flow) + w_initial_credit (fc (dtcp (cfg flow)))\<rparr>\<rparr>
      else flow)"

definition rcvr_ack :: "rl_consts \<Rightarrow> flow_entry \<Rightarrow> 8 word \<times> 64 word" where
  "rcvr_ack K flow =
     (if rtx_control (dtcp (cfg flow)) then
        (let t = PDU_T_CTRL_MASK K OR PDU_T_ACK_BIT K OR PDU_T_ACK K
         in (if flow_control (dtcp (cfg flow))
             then t OR (PDU_T_CTRL_MASK K OR PDU_T_FC_BIT K) else t,
             rcv_lwe (dtp flow) - 1))
      else if flow_control (dtcp (cfg flow)) then (PDU_T_CTRL_MASK K OR PDU_T_FC_BIT K, 0)
      else (0, 0))"

definition sdu_rx_sv_update ::
  "rl_consts \<Rightarrow> rl_env \<Rightarrow> 64 word \<Rightarrow> flow_entry \<Rightarrow> rlite_buf option \<times> flow_entry"
where
  "sdu_rx_sv_update K E ipcp_addr flow0 =
     (let flow = rcvr_flow_control flow0
      in if fst (rcvr_ack K flow) \<noteq> 0
         then ctrl_pdu_alloc E ipcp_addr flow (fst (rcvr_ack K flow)) (snd (rcvr_ack K flow))
         else (None, flow))"

section \<open>The sequencing queue\<close>

definition SEQQ_MAX_LEN :: "32 word" where
  "SEQQ_MAX_LEN = 64"

text \<open>
  The scan of \<^verbatim>\<open>seqq_push\<close>: the queue with the buffer inserted before the first
  entry of a larger sequence number, or \<open>None\<close> when an entry has the same one.
\<close>

fun seqq_insert :: "rlite_buf \<Rightarrow> rlite_buf list \<Rightarrow> rlite_buf list option" where
  "seqq_insert rb [] = Some [rb]"
| "seqq_insert rb (cur # q) =
     (if seqnum (pci rb) < seqnum (pci cur) then Some (rb # cur # q)
      else if seqnum (pci rb) = seqnum (pci cur) then None
      else map_option (\<lambda>q'. cur # q') (seqq_insert rb q))"

text \<open>\<^verbatim>\<open>seqq_push\<close> takes the ownership of the buffer: it is queued or freed.\<close>

definition seqq_push :: "dtp \<Rightarrow> rlite_buf \<Rightarrow> dtp \<times> effect list" where
  "seqq_push d rb =
     (if seqq_len d \<ge> SEQQ_MAX_LEN then (d, [Free rb])
      else (case seqq_insert rb (seqq d) of
              None \<Rightarrow> (d, [Free rb])
            | Some q \<Rightarrow> (d\<lparr>seqq := q, seqq_len := seqq_len d + 1\<rparr>, [])))"

text \<open>
  The scan of \<^verbatim>\<open>seqq_pop_many\<close> over the queue, from the value of \<open>rcv_lwe_priv\<close>
  given: the entries kept, the entries popped (both in queue order) and the final
  \<open>rcv_lwe_priv\<close>.
\<close>

fun seqq_pop_scan ::
  "64 word \<Rightarrow> rlite_buf list \<Rightarrow> 64 word \<Rightarrow> rlite_buf list \<times> rlite_buf list \<times> 64 word"
where
  "seqq_pop_scan gap [] lwe = ([], [], lwe)"
| "seqq_pop_scan gap (qrb # q) lwe =
     (if seqnum (pci qrb) - lwe \<le> gap then
        (case seqq_pop_scan gap q (seqnum (pci qrb) + 1) of
           (kept, popped, lwe') \<Rightarrow> (kept, qrb # popped, lwe'))
      else
        (case seqq_pop_scan gap q lwe of
           (kept, popped, lwe') \<Rightarrow> (qrb # kept, popped, lwe')))"

definition seqq_pop_many :: "dtp \<Rightarrow> 64 word \<Rightarrow> dtp \<times> rlite_buf list" where
  "seqq_pop_many d gap =
     (case seqq_pop_scan gap (seqq d) (rcv_lwe_priv d) of
        (kept, popped, lwe') \<Rightarrow>
          (d\<lparr>seqq := kept, seqq_len := seqq_len d - of_nat (length popped),
             rcv_lwe_priv := lwe'\<rparr>, popped))"

section \<open>Control PDUs received: \<^verbatim>\<open>sdu_rx_ctrl\<close>\<close>

text \<open>
  The loop over \<open>cwq\<close> that follows a window update: while \<open>snd_lwe < snd_rwe\<close>, the
  head leaves \<open>cwq\<close> for the list \<^verbatim>\<open>qrbs\<close> and, with rtx control, is cloned into
  \<open>rtxq\<close> (the return value of \<^verbatim>\<open>rlite_rtxq_push\<close> is not looked at). \<open>cwq_pop\<close> is
  one round of the loop, with \<open>q\<close> the rest of the queue.
\<close>

definition cwq_pop :: "rl_env \<Rightarrow> bool \<Rightarrow> rlite_buf list \<Rightarrow> rlite_buf \<Rightarrow> dtp \<Rightarrow> dtp" where
  "cwq_pop E rtxc q qrb d =
     (let d1 = d\<lparr>cwq := q, cwq_len := cwq_len d - 1,
                 last_seq_num_sent := snd_lwe d, snd_lwe := snd_lwe d + 1\<rparr>
      in if rtxc then snd (rlite_rtxq_push E d1 qrb) else d1)"

fun cwq_drain :: "rl_env \<Rightarrow> bool \<Rightarrow> rlite_buf list \<Rightarrow> dtp \<Rightarrow> dtp \<times> rlite_buf list" where
  "cwq_drain E rtxc [] d = (d, [])"
| "cwq_drain E rtxc (qrb # q) d =
     (if snd_lwe d \<ge> snd_rwe d then (d, [])
      else (case cwq_drain E rtxc q (cwq_pop E rtxc q qrb d) of
              (d3, qrbs) \<Rightarrow> (d3, qrb # qrbs)))"

text \<open>
  The loop over \<open>rtxq\<close> on an ACK: buffers are removed from the head while their
  sequence number is at most the one acknowledged; the loop stops at the first
  other buffer, and points the timer at it when \<open>rtx_tmr_next\<close> is \<^verbatim>\<open>NULL\<close>.
  \<open>rtxq_del\<close> is the removal of the head, with \<open>q\<close> the rest of the queue: a
  pointer to the head becomes \<^verbatim>\<open>NULL\<close>, a pointer further down stays on its buffer.
\<close>

definition rtxq_del :: "rlite_buf list \<Rightarrow> dtp \<Rightarrow> dtp" where
  "rtxq_del q d =
     d\<lparr>rtxq := q, rtxq_len := rtxq_len d - 1,
       rtx_tmr_next := (case rtx_tmr_next d of
                          None \<Rightarrow> None
                        | Some 0 \<Rightarrow> None
                        | Some (Suc i) \<Rightarrow> Some i)\<rparr>"

fun rtxq_ack :: "64 word \<Rightarrow> rlite_buf list \<Rightarrow> dtp \<Rightarrow> dtp \<times> effect list" where
  "rtxq_ack a [] d = (d, [])"
| "rtxq_ack a (cur # q) d =
     (if seqnum (pci cur) \<le> a then
        (case rtxq_ack a q (rtxq_del q d) of (d2, effs) \<Rightarrow> (d2, Free cur # effs))
      else
        ((if rtx_tmr_next d = None
          then d\<lparr>rtx_tmr_next := Some 0, rtx_tmr := Some (rtx_jiffies cur)\<rparr>
          else d), []))"

text \<open>The test on the control sequence number: the PDU is dropped as a duplicate.\<close>

definition ctrl_duplicate :: "dtp \<Rightarrow> 64 word \<Rightarrow> bool" where
  "ctrl_duplicate d s \<longleftrightarrow>
     \<not> s > last_ctrl_seq_num_rcvd d + 1 \<and>
     last_ctrl_seq_num_rcvd d \<noteq> 0 \<and> s \<le> last_ctrl_seq_num_rcvd d"

text \<open>The block of \<^verbatim>\<open>sdu_rx_ctrl\<close> guarded by \<^verbatim>\<open>PDU_T_FC_BIT\<close>.\<close>

definition sdu_rx_ctrl_fc ::
  "rl_consts \<Rightarrow> rl_env \<Rightarrow> flow_config \<Rightarrow> rina_pci_ctrl \<Rightarrow> dtp \<Rightarrow> dtp \<times> rlite_buf list"
where
  "sdu_rx_ctrl_fc K E c pcic d =
     (if pdu_type pcic AND PDU_T_FC_BIT K \<noteq> 0 then
        (if new_rwe pcic < snd_rwe d then (d, [])
         else cwq_drain E (rtx_control (dtcp c)) (cwq d) (d\<lparr>snd_rwe := new_rwe pcic\<rparr>))
      else (d, []))"

text \<open>
  The block of \<^verbatim>\<open>sdu_rx_ctrl\<close> guarded by \<^verbatim>\<open>PDU_T_ACK_BIT\<close>; the subtypes other than
  \<^verbatim>\<open>PDU_T_ACK\<close> change nothing.
\<close>

definition sdu_rx_ctrl_ack :: "rl_consts \<Rightarrow> rina_pci_ctrl \<Rightarrow> dtp \<Rightarrow> dtp \<times> effect list" where
  "sdu_rx_ctrl_ack K pcic d =
     (if pdu_type pcic AND PDU_T_ACK_BIT K \<noteq> 0 then
        (if pdu_type pcic AND PDU_T_ACK_MASK K = PDU_T_ACK K then
           (case rtxq_ack (ack_nack_seq_num pcic) (rtxq d) d of
              (d1, effs) \<Rightarrow> ((if rtxq d1 = [] then d1\<lparr>rtx_tmr := None\<rparr> else d1), effs))
         else (d, []))
      else (d, []))"

text \<open>
  \<^verbatim>\<open>sdu_rx_ctrl\<close>. It always returns 0; the result is the flow and the calls made:
  the buffers freed under the lock, the control PDU freed, the buffers drained
  from \<open>cwq\<close> sent with \<^verbatim>\<open>rmt_tx\<close>, and the write restart.
\<close>

definition sdu_rx_ctrl :: "rl_consts \<Rightarrow> rl_env \<Rightarrow> flow_entry \<Rightarrow> rlite_buf \<Rightarrow> flow_entry \<times> effect list" where
  "sdu_rx_ctrl K E flow rb =
     (let pcic = pci rb in
      if pdu_type pcic AND PDU_T_CTRL_MASK K \<noteq> PDU_T_CTRL_MASK K then (flow, [Free rb])
      else if ctrl_duplicate (dtp flow) (seqnum pcic) then (flow, [Free rb, WriteRestart])
      else
        (let d0 = (dtp flow)\<lparr>last_ctrl_seq_num_rcvd := seqnum pcic\<rparr>;
             (d1, qrbs) = sdu_rx_ctrl_fc K E (cfg flow) pcic d0;
             (d2, freed) = sdu_rx_ctrl_ack K pcic d1
         in (flow\<lparr>dtp := d2\<rparr>,
             freed @ [Free rb] @ map (\<lambda>qrb. RmtTx (dst_addr (pci qrb)) qrb False) qrbs
               @ [WriteRestart])))"

section \<open>Data PDUs received\<close>

text \<open>
  Delivery of one buffer to the upper layer: strip the PCI and call
  \<^verbatim>\<open>rlite_sdu_rx_flow\<close>, or free the buffer when the PCI cannot be stripped.
\<close>

definition deliver_up :: "rl_consts \<Rightarrow> bool \<Rightarrow> rlite_buf \<Rightarrow> effect" where
  "deliver_up K qlimit rb =
     (case rlite_buf_pci_pop K rb of None \<Rightarrow> Free rb | Some rb' \<Rightarrow> SduRxFlow rb' qlimit)"

text \<open>The label \<^verbatim>\<open>snd_crb\<close>: send the control PDU, if one was built.\<close>

definition snd_crb :: "64 word \<Rightarrow> rlite_buf option \<Rightarrow> effect list" where
  "snd_crb dst crb = (case crb of None \<Rightarrow> [] | Some b \<Rightarrow> [RmtTx dst b False])"

definition rx_count :: "flow_entry \<Rightarrow> rlite_buf \<Rightarrow> flow_entry" where
  "rx_count flow rb =
     flow\<lparr>stats := (stats flow)\<lparr>rx_pkt := rx_pkt (stats flow) + 1,
                                 rx_byte := rx_byte (stats flow) + len rb\<rparr>\<rparr>"

text \<open>
  The drop and deliver rules, as \<^verbatim>\<open>rlite_normal_sdu_rx\<close> computes them from the gap.
  The local \<^verbatim>\<open>a\<close> of the code is the constant 0.
\<close>

definition a_timer :: "32 word" where
  "a_timer = 0"

definition drop_rule :: "flow_config \<Rightarrow> 64 word \<Rightarrow> bool" where
  "drop_rule c gap \<longleftrightarrow>
     (in_order_delivery c \<or> dtcp_present c) \<and> a_timer = 0 \<and> \<not> rtx_control (dtcp c) \<and>
     gap > max_sdu_gap c"

definition deliver_rule :: "flow_config \<Rightarrow> 64 word \<Rightarrow> bool" where
  "deliver_rule c gap \<longleftrightarrow> \<not> drop_rule c gap \<and> gap \<le> max_sdu_gap c"

text \<open>
  The part of \<^verbatim>\<open>rlite_normal_sdu_rx\<close> that handles a data transfer PDU of a flow
  (from the comment "This is data transfer PDU" on), block by block. The value
  returned by the code is that of \<^verbatim>\<open>rlite_sdu_rx_flow\<close> and is left out; the
  result is the flow and the calls made.
\<close>

text \<open>With DTCP the receiver inactivity timer is set again.\<close>

definition rcv_inact_rearm :: "rl_env \<Rightarrow> flow_entry \<Rightarrow> flow_entry" where
  "rcv_inact_rearm E flow =
     (if dtcp_present (cfg flow)
      then flow\<lparr>dtp := (dtp flow)\<lparr>rcv_inact_tmr := Some (jiffies E + 2 * mpl_r_a (dtp flow))\<rparr>\<rparr>
      else flow)"

text \<open>DRF is set: first PDU or new run. The reassembly queue is not flushed.\<close>

definition sdu_rx_drf ::
  "rl_consts \<Rightarrow> rl_env \<Rightarrow> 64 word \<Rightarrow> flow_entry \<Rightarrow> rlite_buf \<Rightarrow> flow_entry \<times> effect list"
where
  "sdu_rx_drf K E ipcp_addr flow rb =
     (let s = seqnum (pci rb);
          r = sdu_rx_sv_update K E ipcp_addr
                (flow\<lparr>dtp := (dtp flow)\<lparr>rcv_lwe := s + 1, rcv_lwe_priv := s + 1,
                                          max_seq_num_rcvd := s\<rparr>\<rparr>)
      in (rx_count (snd r) rb,
          deliver_up K (\<not> flow_control (dtcp (cfg flow))) rb # snd_crb (remote_addr (snd r)) (fst r)))"

text \<open>The sequence number is below \<open>rcv_lwe_priv\<close>: a duplicate.\<close>

definition sdu_rx_duplicate ::
  "rl_consts \<Rightarrow> rl_env \<Rightarrow> 64 word \<Rightarrow> flow_entry \<Rightarrow> rlite_buf \<Rightarrow> flow_entry \<times> effect list"
where
  "sdu_rx_duplicate K E ipcp_addr flow rb =
     (let flow1 = flow\<lparr>stats := (stats flow)\<lparr>rx_err := rx_err (stats flow) + 1\<rparr>\<rparr>
      in if flow_control (dtcp (cfg flow)) \<and>
            rcv_lwe (dtp flow) \<ge> last_snd_data_ack (dtp flow) then
           (let r = ctrl_pdu_alloc E ipcp_addr flow1
                      (PDU_T_CTRL_MASK K OR PDU_T_ACK_BIT K OR PDU_T_ACK K OR PDU_T_FC_BIT K)
                      (rcv_lwe (dtp flow))
            in case fst r of
                 None \<Rightarrow> (snd r, [Free rb])
               | Some b \<Rightarrow>
                   ((snd r)\<lparr>dtp := (dtp (snd r))\<lparr>last_snd_data_ack := rcv_lwe (dtp (snd r))\<rparr>\<rparr>,
                    Free rb # snd_crb (remote_addr (snd r)) (Some b)))
         else (flow1, [Free rb]))"

text \<open>The PDU is delivered, and with it what \<^verbatim>\<open>seqq_pop_many\<close> takes out of \<open>seqq\<close>.\<close>

definition sdu_rx_deliver ::
  "rl_consts \<Rightarrow> rl_env \<Rightarrow> 64 word \<Rightarrow> flow_entry \<Rightarrow> rlite_buf \<Rightarrow> flow_entry \<times> effect list"
where
  "sdu_rx_deliver K E ipcp_addr flow rb =
     (let p = seqq_pop_many ((dtp flow)\<lparr>rcv_lwe_priv := seqnum (pci rb) + 1\<rparr>)
                (max_sdu_gap (cfg flow));
          r = (if upper_ipcp flow \<noteq> None
               then sdu_rx_sv_update K E ipcp_addr
                      (flow\<lparr>dtp := (fst p)\<lparr>rcv_lwe := rcv_lwe_priv (fst p)\<rparr>\<rparr>)
               else (None, flow\<lparr>dtp := fst p\<rparr>));
          qlimit = \<not> flow_control (dtcp (cfg flow))
      in (rx_count (snd r) rb,
          (case rlite_buf_pci_pop K rb of
             None \<Rightarrow> [Free rb]
           | Some rb' \<Rightarrow> SduRxFlow rb' qlimit # map (deliver_up K qlimit) (snd p))
          @ snd_crb (remote_addr (snd r)) (fst r)))"

text \<open>The PDU is dropped to meet the QoS requirements.\<close>

definition sdu_rx_drop ::
  "rl_consts \<Rightarrow> rl_env \<Rightarrow> 64 word \<Rightarrow> flow_entry \<Rightarrow> rlite_buf \<Rightarrow> flow_entry \<times> effect list"
where
  "sdu_rx_drop K E ipcp_addr flow rb =
     (let r = sdu_rx_sv_update K E ipcp_addr
                (flow\<lparr>stats := (stats flow)\<lparr>rx_err := rx_err (stats flow) + 1\<rparr>\<rparr>)
      in (snd r, Free rb # snd_crb (remote_addr (snd r)) (fst r)))"

text \<open>What is neither dropped nor delivered goes to the sequencing queue.\<close>

definition sdu_rx_hold ::
  "rl_consts \<Rightarrow> rl_env \<Rightarrow> 64 word \<Rightarrow> flow_entry \<Rightarrow> rlite_buf \<Rightarrow> flow_entry \<times> effect list"
where
  "sdu_rx_hold K E ipcp_addr flow rb =
     (let q = seqq_push (dtp flow) rb;
          r = sdu_rx_sv_update K E ipcp_addr (rx_count (flow\<lparr>dtp := fst q\<rparr>) rb)
      in (snd r, snd q @ snd_crb (remote_addr (snd r)) (fst r)))"

definition max_seq_num_update :: "64 word \<Rightarrow> flow_entry \<Rightarrow> flow_entry" where
  "max_seq_num_update s flow =
     (if s > max_seq_num_rcvd (dtp flow)
      then flow\<lparr>dtp := (dtp flow)\<lparr>max_seq_num_rcvd := s\<rparr>\<rparr> else flow)"

definition sdu_rx_data ::
  "rl_consts \<Rightarrow> rl_env \<Rightarrow> 64 word \<Rightarrow> flow_entry \<Rightarrow> rlite_buf \<Rightarrow> flow_entry \<times> effect list"
where
  "sdu_rx_data K E ipcp_addr flow0 rb =
     (let s = seqnum (pci rb);
          flow = rcv_inact_rearm E flow0
      in if pdu_flags (pci rb) AND 1 \<noteq> 0 then sdu_rx_drf K E ipcp_addr flow rb
         else if s < rcv_lwe_priv (dtp flow) then sdu_rx_duplicate K E ipcp_addr flow rb
         else
           (let flow1 = max_seq_num_update s flow;
                gap = s - rcv_lwe_priv (dtp flow1)
            in if deliver_rule (cfg flow1) gap then sdu_rx_deliver K E ipcp_addr flow1 rb
               else if drop_rule (cfg flow1) gap then sdu_rx_drop K E ipcp_addr flow1 rb
               else sdu_rx_hold K E ipcp_addr flow1 rb))"

text \<open>
  \<^verbatim>\<open>rlite_normal_sdu_rx\<close>: a PDU for another address is forwarded, a PDU for an
  unknown connection end-point is freed, the others go to the flow that
  \<^verbatim>\<open>flow_get_by_cep\<close> finds (here the table \<open>flows\<close>).
\<close>

definition rlite_normal_sdu_rx ::
  "rl_consts \<Rightarrow> rl_env \<Rightarrow> 64 word \<Rightarrow> (32 word \<Rightarrow> flow_entry option) \<Rightarrow> rlite_buf
     \<Rightarrow> (32 word \<Rightarrow> flow_entry option) \<times> effect list"
where
  "rlite_normal_sdu_rx K E ipcp_addr flows rb =
     (if dst_addr (pci rb) \<noteq> ipcp_addr then (flows, [RmtTx (dst_addr (pci rb)) rb False])
      else
        (case flows (dst_cep (conn_id (pci rb))) of
           None \<Rightarrow> (flows, [Free rb])
         | Some flow \<Rightarrow>
             (case (if pdu_type (pci rb) \<noteq> PDU_T_DT K then sdu_rx_ctrl K E flow rb
                    else sdu_rx_data K E ipcp_addr flow rb) of
                (flow', effs) \<Rightarrow> (flows(dst_cep (conn_id (pci rb)) := Some flow'), effs))))"

text \<open>
  \<^verbatim>\<open>rlite_normal_sdu_rx_consumed\<close>: the upper layer has consumed the buffer;
  \<open>ipcp_addr\<close> is the address of \<^verbatim>\<open>flow->txrx.ipcp\<close>.
\<close>

definition rlite_normal_sdu_rx_consumed ::
  "rl_consts \<Rightarrow> rl_env \<Rightarrow> 64 word \<Rightarrow> flow_entry \<Rightarrow> rlite_buf \<Rightarrow> flow_entry \<times> effect list"
where
  "rlite_normal_sdu_rx_consumed K E ipcp_addr flow rb =
     (case sdu_rx_sv_update K E ipcp_addr
             (flow\<lparr>dtp := (dtp flow)\<lparr>rcv_lwe := seqnum (pci rb) + 1\<rparr>\<rparr>) of
        (crb, flow1) \<Rightarrow> (flow1, snd_crb (remote_addr flow1) crb))"

text \<open>\<^verbatim>\<open>snd_inact_tmr_cb\<close>, run when the sender inactivity timer fires.\<close>

definition snd_inact_tmr_cb :: "flow_entry \<Rightarrow> flow_entry" where
  "snd_inact_tmr_cb flow = flow\<lparr>dtp := (dtp flow)\<lparr>snd_inact_tmr := None, set_drf := True\<rparr>\<rparr>"

section \<open>The retransmission timer\<close>

text \<open>
  The scan of \<^verbatim>\<open>rtx_tmr_cb\<close> over the circular list \<open>rtxq\<close>. The cursor \<open>c\<close> is a
  position in the list: below \<open>length rtxq\<close> a buffer, at \<open>length rtxq\<close> the list
  head, which is skipped. \<open>i\<close> is the buffer \<open>rtx_tmr_next\<close> points to during the
  scan. An expired buffer gets a new deadline and is cloned for retransmission;
  the scan stops at the first buffer that has not expired, moving the timer to
  it, or when it is back at \<open>i\<close>. The code has no bound on the rounds: \<open>None\<close> says
  that the scan is still running after \<open>fuel\<close> rounds.
\<close>

fun rtx_scan ::
  "nat \<Rightarrow> rl_env \<Rightarrow> nat \<Rightarrow> nat \<Rightarrow> dtp \<Rightarrow> rlite_buf list \<Rightarrow> (dtp \<times> rlite_buf list) option"
where
  "rtx_scan 0 E i c d rrbq = None"
| "rtx_scan (Suc fuel) E i c d rrbq =
     (if c \<ge> length (rtxq d) then rtx_scan fuel E i 0 d rrbq
      else
        (let rb = rtxq d ! c in
         if jiffies E \<ge> rtx_jiffies rb then
           (let rb' = rb\<lparr>rtx_jiffies := rtx_jiffies rb + rtx_tmr_int d\<rparr>;
                d' = d\<lparr>rtxq := (rtxq d)[c := rb']\<rparr>;
                rrbq' = (case rlite_buf_clone E rb' of None \<Rightarrow> rrbq | Some crb \<Rightarrow> rrbq @ [crb])
            in if Suc c = i then Some (d', rrbq') else rtx_scan fuel E i (Suc c) d' rrbq')
         else
           Some ((if c \<noteq> i then d\<lparr>rtx_tmr_next := Some c, rtx_tmr := Some (rtx_jiffies rb)\<rparr>
                  else d), rrbq)))"

text \<open>
  \<^verbatim>\<open>rtx_tmr_cb\<close>, run when the retransmission timer fires (it is then no longer
  pending). A pointer \<open>rtx_tmr_next\<close> outside the queue is outside the model: \<open>None\<close>.
\<close>

definition rtx_tmr_cb :: "nat \<Rightarrow> rl_env \<Rightarrow> flow_entry \<Rightarrow> (flow_entry \<times> effect list) option" where
  "rtx_tmr_cb fuel E flow =
     (let d = (dtp flow)\<lparr>rtx_tmr := None\<rparr> in
      case rtx_tmr_next d of
        None \<Rightarrow> Some (flow\<lparr>dtp := d\<rparr>, [])
      | Some i \<Rightarrow>
          if i \<ge> length (rtxq d) then None
          else (case rtx_scan fuel E i i d [] of
                  None \<Rightarrow> None
                | Some (d', rrbq) \<Rightarrow>
                    Some (flow\<lparr>dtp := d'\<rparr>,
                          map (\<lambda>crb. RmtTx (dst_addr (pci crb)) crb False) rrbq)))"

section \<open>Reachable states of a flow\<close>

text \<open>
  The states a flow goes through: it starts from \<^verbatim>\<open>rlite_normal_flow_init\<close> on
  an entry with empty queues, and every call of the send path, of the receive path
  (data and control), of \<^verbatim>\<open>sdu_rx_consumed\<close> and of the timer callbacks takes it
  to the next state. Writes are followed up to the last sequence number of the
  64-bit space, \<open>2^64 - 1\<close>, where \<open>next_seq_num_to_send\<close> would wrap to 0.
\<close>

inductive reachable :: "rl_consts \<Rightarrow> flow_entry \<Rightarrow> bool" for K :: rl_consts where
  after_init: "cwq (dtp f0) = [] \<Longrightarrow> rtxq (dtp f0) = [] \<Longrightarrow>
         reachable K (rlite_normal_flow_init K max_pdu_life f0)"
| after_write: "reachable K f \<Longrightarrow> next_seq_num_to_send (dtp f) \<noteq> - 1 \<Longrightarrow>
          reachable K (fst (snd (sdu_write_locked K E a f rb)))"
| after_rx_data: "reachable K f \<Longrightarrow> reachable K (fst (sdu_rx_data K E a f rb))"
| after_rx_ctrl: "reachable K f \<Longrightarrow> reachable K (fst (sdu_rx_ctrl K E f rb))"
| after_rx_consumed: "reachable K f \<Longrightarrow> reachable K (fst (rlite_normal_sdu_rx_consumed K E a f rb))"
| after_snd_inact: "reachable K f \<Longrightarrow> reachable K (snd_inact_tmr_cb f)"
| after_rtx_tmr: "reachable K f \<Longrightarrow> rtx_tmr_cb fuel E f = Some (f', effs) \<Longrightarrow> reachable K f'"

section \<open>Values for evaluating the model\<close>

text \<open>
  One assignment of the constants, an environment in which every clone succeeds,
  buffers, flow configurations and a flow entry as it is before
  \<^verbatim>\<open>rlite_normal_flow_init\<close>: empty queues, no timer pending, counters at zero.
\<close>

definition example_consts :: rl_consts where
  "example_consts = \<lparr>PDU_T_DT = 0x80, PDU_T_CTRL_MASK = 0xC0, PDU_T_ACK_BIT = 0x04,
     PDU_T_FC_BIT = 0x08, PDU_T_ACK_MASK = 0x03, PDU_T_ACK = 0, sizeof_pci = 40,
     MPL_MSECS_DEFAULT = 1000, msecs_to_jiffies = (\<lambda>m. m)\<rparr>"

definition example_env :: "64 word \<Rightarrow> rl_env" where
  "example_env now = \<lparr>jiffies = now, clone_ok = (\<lambda>rb. True), alloc_ctrl = None\<rparr>"

definition example_pci :: "8 word \<Rightarrow> 64 word \<Rightarrow> rina_pci_ctrl" where
  "example_pci ty s = \<lparr>dst_addr = 2, src_addr = 1,
     conn_id = \<lparr>qos_id = 0, dst_cep = 7, src_cep = 9\<rparr>,
     pdu_type = ty, pdu_flags = 0, pdu_len = 140, seqnum = s,
     pcic_last_ctrl_seq_num_rcvd = 0, ack_nack_seq_num = 0, new_rwe = 0, new_lwe = 0,
     my_rwe = 0, my_lwe = 0\<rparr>"

definition example_buf :: "8 word \<Rightarrow> 64 word \<Rightarrow> rlite_buf" where
  "example_buf ty s = \<lparr>pci = example_pci ty s, len = 140, headroom = 1, rtx_jiffies = 0,
     tx_compl_flow = None, payload = []\<rparr>"

definition example_cfg :: "bool \<Rightarrow> bool \<Rightarrow> 64 word \<Rightarrow> flow_config" where
  "example_cfg use_fc use_rtx gap =
     \<lparr>dtcp_present = (use_fc \<or> use_rtx), in_order_delivery = True, max_sdu_gap = gap,
      dtcp = \<lparr>flow_control = use_fc,
              fc = \<lparr>fc_type = (if use_fc then RLITE_FC_T_WIN else RLITE_FC_T_NONE),
                    w_max_cwq_len = 4, w_initial_credit = 2\<rparr>,
              rtx_control = use_rtx,
              rtx = \<lparr>initial_tr = 100, data_rxms_max = 10\<rparr>,
              initial_a = 0\<rparr>\<rparr>"

definition blank_dtp :: dtp where
  "blank_dtp = \<lparr>set_drf = False, snd_lwe = 0, snd_rwe = 0, next_seq_num_to_send = 0,
     last_seq_num_sent = 0, last_ctrl_seq_num_rcvd = 0, cwq = [], cwq_len = 0,
     max_cwq_len = 0, snd_inact_tmr = None, rtxq = [], rtxq_len = 0, max_rtxq_len = 0,
     rtx_tmr = None, rtx_tmr_next = None, rtx_tmr_int = 0, rcv_lwe = 0, rcv_lwe_priv = 0,
     rcv_rwe = 0, max_seq_num_rcvd = 0, last_snd_data_ack = 0, next_snd_ctl_seq = 0,
     rcv_inact_tmr = None, seqq = [], seqq_len = 0, mpl_r_a = 0\<rparr>"

definition blank_flow :: "flow_config \<Rightarrow> flow_entry" where
  "blank_flow c = \<lparr>cfg = c, dtp = blank_dtp,
     stats = \<lparr>tx_pkt = 0, tx_byte = 0, tx_err = 0, rx_pkt = 0, rx_byte = 0, rx_err = 0\<rparr>,
     remote_addr = 2, remote_cep = 7, local_cep = 9, upper_ipcp = None\<rparr>"

definition example_flow :: "bool \<Rightarrow> bool \<Rightarrow> 64 word \<Rightarrow> flow_entry" where
  "example_flow use_fc use_rtx gap =
     rlite_normal_flow_init example_consts None (blank_flow (example_cfg use_fc use_rtx gap))"

definition example_rmt_env :: rmt_env where
  "example_rmt_env = \<lparr>pduft = (\<lambda>a. if a = 2 then Some 5 else None), lower_writes = [Inl EAGAIN]\<rparr>"

text \<open>The flow after \<open>n\<close> calls of \<^verbatim>\<open>rlite_normal_sdu_write\<close> at time 5.\<close>

fun example_sends :: "nat \<Rightarrow> flow_entry \<Rightarrow> flow_entry" where
  "example_sends 0 flow = flow"
| "example_sends (Suc n) flow =
     fst (snd (sdu_write_locked example_consts (example_env 5) 1 (example_sends n flow)
                 (example_buf 0 0)))"

section \<open>Predicates used in the statements\<close>

text \<open>The flow with the sender inactivity timer set as the send path sets it.\<close>

definition snd_inact_rearm :: "rl_env \<Rightarrow> flow_entry \<Rightarrow> flow_entry" where
  "snd_inact_rearm E flow =
     (if dtcp_present (cfg flow)
      then flow\<lparr>dtp := (dtp flow)\<lparr>snd_inact_tmr := Some (jiffies E + 3 * mpl_r_a (dtp flow))\<rparr>\<rparr>
      else flow)"


text \<open>
  The sequence number of the buffer is far enough from the end of the 64-bit
  space: \<open>seqnum + 1 + gap\<close> does not wrap.
\<close>

definition seq_nowrap :: "64 word \<Rightarrow> rlite_buf \<Rightarrow> bool" where
  "seq_nowrap gap b \<longleftrightarrow> unat (seqnum (pci b)) + 1 + unat gap < 2 ^ 64"

text \<open>
  A run of pops from the frontier \<open>lwe\<close>: each buffer is within \<open>gap\<close> of the
  frontier at its turn, and the frontier then moves past it.
\<close>

fun pop_chain :: "64 word \<Rightarrow> 64 word \<Rightarrow> rlite_buf list \<Rightarrow> bool" where
  "pop_chain gap lwe [] = True"
| "pop_chain gap lwe (b # bs) =
     (seqnum (pci b) - lwe \<le> gap \<and> pop_chain gap (seqnum (pci b) + 1) bs)"

text \<open>
  The frontier when the buffers \<open>pre\<close> of the queue have had their turn, from the
  frontier \<open>lwe\<close>: it has moved past each buffer that was within \<open>gap\<close> of it. The
  buffer at position \<open>i\<close> of the queue \<open>q\<close> is within \<open>gap\<close> of the frontier at its
  turn.
\<close>

definition pop_frontier :: "64 word \<Rightarrow> 64 word \<Rightarrow> rlite_buf list \<Rightarrow> 64 word" where
  "pop_frontier gap lwe pre =
     fold (\<lambda>b L. if seqnum (pci b) - L \<le> gap then seqnum (pci b) + 1 else L) pre lwe"

definition pop_turn :: "64 word \<Rightarrow> 64 word \<Rightarrow> rlite_buf list \<Rightarrow> nat \<Rightarrow> bool" where
  "pop_turn gap lwe q i \<longleftrightarrow> seqnum (pci (q ! i)) - pop_frontier gap lwe (take i q) \<le> gap"

text \<open>
  The scan of \<^verbatim>\<open>seqq_push\<close> meets a buffer with the sequence number of \<open>rb\<close> before
  it meets one with a larger sequence number.
\<close>

definition seqq_has_dup :: "rlite_buf \<Rightarrow> rlite_buf list \<Rightarrow> bool" where
  "seqq_has_dup rb q \<longleftrightarrow>
     (\<exists>cur \<in> set (takeWhile (\<lambda>cur. \<not> seqnum (pci rb) < seqnum (pci cur)) q).
        seqnum (pci cur) = seqnum (pci rb))"

text \<open>The buffers handed to the upper layer, in order.\<close>

fun deliveries :: "effect list \<Rightarrow> rlite_buf list" where
  "deliveries [] = []"
| "deliveries (SduRxFlow b q # es) = b # deliveries es"
| "deliveries (e # es) = deliveries es"

text \<open>
  The flow after a run of data PDUs with the sequence numbers given (DRF clear),
  and the calls made for the last of them.
\<close>

fun example_rcvd :: "64 word list \<Rightarrow> flow_entry \<Rightarrow> flow_entry" where
  "example_rcvd [] flow = flow"
| "example_rcvd (s # ss) flow =
     example_rcvd ss (fst (sdu_rx_data example_consts (example_env 5) 2 flow (example_buf 128 s)))"

text \<open>A data PDU with the DRF flag set, and a data PDU stripped of its PCI.\<close>

definition example_drf_buf :: "64 word \<Rightarrow> rlite_buf" where
  "example_drf_buf s = (example_buf 128 s)\<lparr>pci := (example_pci 128 s)\<lparr>pdu_flags := 1\<rparr>\<rparr>"

definition example_stripped :: "64 word \<Rightarrow> rlite_buf" where
  "example_stripped s = (example_buf 128 s)\<lparr>headroom := 2, len := 100\<rparr>"

text \<open>
  A receiver with rtx control and \<open>max_sdu_gap = 0\<close> that was sent the data PDUs
  1 to 64 and never the PDU 0: all 64 wait in \<open>seqq\<close>.
\<close>

definition example_seqq_full :: flow_entry where
  "example_seqq_full = example_rcvd (map of_nat [1..<65]) (example_flow False True 0)"


text \<open>
  The receiver of scenario S2 (rtx control, \<open>max_sdu_gap = 0\<close>) after the data
  PDU 0, and after the data PDUs 0 and 2.
\<close>

definition example_rcvd0 :: flow_entry where
  "example_rcvd0 = example_rcvd [0] (example_flow False True 0)"

definition example_rcvd02 :: flow_entry where
  "example_rcvd02 = example_rcvd [0, 2] (example_flow False True 0)"

text \<open>
  The same receiver when PDU 5 came first and is held, a PDU with the DRF flag
  started a run at 9, PDU 12 came and is held, and PDU 10 was delivered: \<open>seqq\<close>
  holds 5, which the run has left behind, and 12.
\<close>

definition example_stale :: flow_entry where
  "example_stale =
     example_rcvd [12, 10]
       (fst (sdu_rx_data example_consts (example_env 5) 2
               (example_rcvd [5] (example_flow False True 0)) (example_drf_buf 9)))"

text \<open>
  A flow-control PDU with control sequence number \<open>c\<close> that advertises the right
  window edge \<open>rwe\<close>, and an ACK PDU that acknowledges \<open>ack\<close>.
\<close>

definition example_fc_pdu :: "64 word \<Rightarrow> 64 word \<Rightarrow> rlite_buf" where
  "example_fc_pdu c rwe = (example_buf 200 c)\<lparr>pci := (example_pci 200 c)\<lparr>new_rwe := rwe\<rparr>\<rparr>"

definition example_ack_pdu :: "64 word \<Rightarrow> 64 word \<Rightarrow> rlite_buf" where
  "example_ack_pdu c ack =
     (example_buf 196 c)\<lparr>pci := (example_pci 196 c)\<lparr>ack_nack_seq_num := ack\<rparr>\<rparr>"

text \<open>
  The sender of scenario S4 (window flow control with \<open>initial_credit = 2\<close> and
  \<open>max_cwq_len = 4\<close>, rtx control) after five writes.
\<close>

definition example_sent5 :: flow_entry where
  "example_sent5 = example_sends 5 (example_flow True True 0)"

text \<open>The calls of \<^verbatim>\<open>rmt_tx\<close> among the calls made, in order.\<close>

fun rmt_sends :: "effect list \<Rightarrow> effect list" where
  "rmt_sends [] = []"
| "rmt_sends (RmtTx dst b ms # es) = RmtTx dst b ms # rmt_sends es"
| "rmt_sends (e # es) = rmt_sends es"

text \<open>The sequence numbers of the buffers of a queue, head first.\<close>

definition seqnums :: "rlite_buf list \<Rightarrow> 64 word list" where
  "seqnums q = map (\<lambda>b. seqnum (pci b)) q"

text \<open>
  The invariant of the sender's queues: \<open>rtxq\<close> followed by \<open>cwq\<close> is strictly
  ascending in sequence number and below \<open>next_seq_num_to_send\<close>; \<open>snd_lwe\<close> is not
  beyond \<open>next_seq_num_to_send\<close>; while \<open>cwq\<close> holds a buffer, \<open>snd_lwe\<close> is not
  beyond its head and the window is closed for new PDUs; and \<open>cwq\<close> is used with
  DTCP and window flow control only.
\<close>

definition snd_inv :: "flow_entry \<Rightarrow> bool" where
  "snd_inv f \<longleftrightarrow>
     sorted_wrt (<) (seqnums (rtxq (dtp f)) @ seqnums (cwq (dtp f))) \<and>
     (\<forall>x \<in> set (seqnums (rtxq (dtp f)) @ seqnums (cwq (dtp f))).
        x < next_seq_num_to_send (dtp f)) \<and>
     snd_lwe (dtp f) \<le> next_seq_num_to_send (dtp f) \<and>
     (cwq (dtp f) \<noteq> [] \<longrightarrow>
        snd_lwe (dtp f) \<le> hd (seqnums (cwq (dtp f))) \<and>
        snd_rwe (dtp f) < next_seq_num_to_send (dtp f)) \<and>
     (\<not> dtcp_present (cfg f) \<or> fc_type (fc (dtcp (cfg f))) \<noteq> RLITE_FC_T_WIN \<longrightarrow>
        cwq (dtp f) = [])"

text \<open>The part of the DTP state that the invariant of the sender's queues reads.\<close>

definition snd_side :: "dtp \<Rightarrow> rlite_buf list \<times> rlite_buf list \<times> 64 word \<times> 64 word \<times> 64 word" where
  "snd_side d = (rtxq d, cwq d, next_seq_num_to_send d, snd_lwe d, snd_rwe d)"

section \<open>The relay and multiplexing task\<close>

text \<open>
  Claim C10. When \<^verbatim>\<open>rmt_tx\<close> is called with \<^verbatim>\<open>maysleep\<close> false, a lower flow is
  found and its write returns \<^verbatim>\<open>-EAGAIN\<close>, then \<^verbatim>\<open>rmt_tx\<close> returns \<^verbatim>\<open>-EAGAIN\<close>
  both when the buffer is parked on the deferred-send queue (queue length below
  64) and when it is freed because the queue is full: the return value is the
  same, and the buffer is consumed either way.
\<close>

theorem rmt_tx_wouldblock:
  assumes "pduft R dst = Some lower_flow" and "lower_writes R = Inl EAGAIN # rs"
  shows "rmt_tx R ipcp_addr lip dst rb False =
     Some (Ret (Inl EAGAIN),
           (if rmtq_len lip < 64
            then lip\<lparr>rmtq := rmtq lip @ [rb\<lparr>tx_compl_flow := Some lower_flow\<rparr>],
                      rmtq_len := rmtq_len lip + 1\<rparr>
            else lip),
           (if rmtq_len lip < 64 then [] else [Free rb]))"
  using assms by (simp add: rmt_tx_def RMTQ_MAX_LEN_def)

theorem rmt_tx_wouldblock_witness:
  "rmt_tx example_rmt_env 1 \<lparr>rmtq = [], rmtq_len = 3\<rparr> 2 (example_buf 128 0) False
     = Some (Ret (Inl EAGAIN),
         \<lparr>rmtq = [(example_buf 128 0)\<lparr>tx_compl_flow := Some 5\<rparr>], rmtq_len = 4\<rparr>, [])
   \<and> rmt_tx example_rmt_env 1 \<lparr>rmtq = [], rmtq_len = 64\<rparr> 2 (example_buf 128 0) False
     = Some (Ret (Inl EAGAIN), \<lparr>rmtq = [], rmtq_len = 64\<rparr>, [Free (example_buf 128 0)])"
  using rmt_tx_wouldblock [of example_rmt_env 2 5 "[]" 1 "\<lparr>rmtq = [], rmtq_len = 3\<rparr>"
                              "example_buf 128 0"]
        rmt_tx_wouldblock [of example_rmt_env 2 5 "[]" 1 "\<lparr>rmtq = [], rmtq_len = 64\<rparr>"
                              "example_buf 128 0"]
  by (simp add: example_rmt_env_def)

section \<open>The send path\<close>

lemma sdu_write_locked_refused:
  assumes "(fc_type (fc (dtcp (cfg flow))) = RLITE_FC_T_WIN \<and>
            next_seq_num_to_send (dtp flow) > snd_rwe (dtp flow) \<and>
            cwq_len (dtp flow) \<ge> max_cwq_len (dtp flow)) \<or>
           (rtx_control (dtcp (cfg flow)) \<and> rtxq_len (dtp flow) \<ge> max_rtxq_len (dtp flow))"
  shows "sdu_write_locked K E a flow rb = (Inl EAGAIN, snd_inact_rearm E flow, [])"
  using assms by (auto simp: sdu_write_locked_def snd_inact_rearm_def Let_def)

lemma sdu_write_locked_admitted:
  assumes "\<not> ((fc_type (fc (dtcp (cfg flow))) = RLITE_FC_T_WIN \<and>
            next_seq_num_to_send (dtp flow) > snd_rwe (dtp flow) \<and>
            cwq_len (dtp flow) \<ge> max_cwq_len (dtp flow)) \<or>
           (rtx_control (dtcp (cfg flow)) \<and> rtxq_len (dtp flow) \<ge> max_rtxq_len (dtp flow)))"
   and "sdu_write_locked K E a flow rb = (r, flow', effs)"
  shows "(r = Inl ENOSPC \<and> effs = [Free rb]) \<or>
         next_seq_num_to_send (dtp flow') = next_seq_num_to_send (dtp flow) + 1"
  using assms
  by (auto simp: sdu_write_locked_def rlite_rtxq_push_def rlite_buf_clone_def Let_def
           split: option.splits if_splits prod.splits sum.splits)

text \<open>
  Claim C3. \<^verbatim>\<open>rlite_normal_sdu_write\<close> refuses admission exactly when, at entry,
  window flow control is configured with \<open>next_seq_num_to_send > snd_rwe\<close> and
  \<open>cwq_len \<ge> max_cwq_len\<close>, or rtx control is configured with
  \<open>rtxq_len \<ge> max_rtxq_len\<close>. In that case it returns \<^verbatim>\<open>-EAGAIN\<close>, the flow is
  as before but for the sender inactivity timer, nothing is queued, and nothing is
  freed or sent. In the other case a call that returns has either failed to push
  the PCI (\<^verbatim>\<open>-ENOSPC\<close>, buffer freed) or assigned the sequence number.
\<close>

theorem sdu_write_wouldblock_admission:
  "if (fc_type (fc (dtcp (cfg flow))) = RLITE_FC_T_WIN \<and>
       next_seq_num_to_send (dtp flow) > snd_rwe (dtp flow) \<and>
       cwq_len (dtp flow) \<ge> max_cwq_len (dtp flow)) \<or>
      (rtx_control (dtcp (cfg flow)) \<and> rtxq_len (dtp flow) \<ge> max_rtxq_len (dtp flow))
   then rlite_normal_sdu_write K E R a lip flow rb maysleep =
          Some (Ret (Inl EAGAIN), snd_inact_rearm E flow, lip, [])
   else (\<forall>r flow' lip' effs.
           rlite_normal_sdu_write K E R a lip flow rb maysleep = Some (r, flow', lip', effs) \<longrightarrow>
           (r = Ret (Inl ENOSPC) \<and> effs = [Free rb] \<and> lip' = lip) \<or>
           next_seq_num_to_send (dtp flow') = next_seq_num_to_send (dtp flow) + 1)"
proof (cases "(fc_type (fc (dtcp (cfg flow))) = RLITE_FC_T_WIN \<and>
       next_seq_num_to_send (dtp flow) > snd_rwe (dtp flow) \<and>
       cwq_len (dtp flow) \<ge> max_cwq_len (dtp flow)) \<or>
      (rtx_control (dtcp (cfg flow)) \<and> rtxq_len (dtp flow) \<ge> max_rtxq_len (dtp flow))")
  case True
  then show ?thesis
    by (simp add: rlite_normal_sdu_write_def sdu_write_locked_refused del: disj_not1)
next
  case False
  obtain r0 f0 e0 where l: "sdu_write_locked K E a flow rb = (r0, f0, e0)"
    by (cases "sdu_write_locked K E a flow rb") auto
  from sdu_write_locked_admitted [OF False l]
  have "(r0 = Inl ENOSPC \<and> e0 = [Free rb]) \<or>
        next_seq_num_to_send (dtp f0) = next_seq_num_to_send (dtp flow) + 1" .
  then show ?thesis using False l
    by (auto simp: rlite_normal_sdu_write_def split: sum.splits option.splits)
qed

theorem sdu_write_wouldblock_admission_witness:
  "rlite_normal_sdu_write example_consts (example_env 5) example_rmt_env 1
      \<lparr>rmtq = [], rmtq_len = 0\<rparr> (example_sends 7 (example_flow True False 0))
      (example_buf 0 0) False
    = Some (Ret (Inl EAGAIN),
            snd_inact_rearm (example_env 5) (example_sends 7 (example_flow True False 0)),
            \<lparr>rmtq = [], rmtq_len = 0\<rparr>, [])"
proof -
  let ?F = "example_sends 7 (example_flow True False 0)"
  have c: "fc_type (fc (dtcp (cfg ?F))) = RLITE_FC_T_WIN \<and>
       next_seq_num_to_send (dtp ?F) > snd_rwe (dtp ?F) \<and>
       cwq_len (dtp ?F) \<ge> max_cwq_len (dtp ?F)"
    by code_simp
  show ?thesis
    using sdu_write_wouldblock_admission [of ?F example_consts "example_env 5" example_rmt_env 1
        "\<lparr>rmtq = [], rmtq_len = 0\<rparr>" "example_buf 0 0" False] c
    by simp
qed





section \<open>The receive path\<close>

lemma ctrl_pdu_alloc_snd:
  "snd (ctrl_pdu_alloc E a f ty ack) =
     (case alloc_ctrl E of None \<Rightarrow> f
      | Some b \<Rightarrow> f\<lparr>dtp := (dtp f)\<lparr>next_snd_ctl_seq := next_snd_ctl_seq (dtp f) + 1\<rparr>\<rparr>)"
  by (simp add: ctrl_pdu_alloc_def split: option.splits)

lemma ctrl_pdu_alloc_frame [simp]:
  "rcv_lwe (dtp (snd (ctrl_pdu_alloc E a f ty ack))) = rcv_lwe (dtp f)"
  "rcv_lwe_priv (dtp (snd (ctrl_pdu_alloc E a f ty ack))) = rcv_lwe_priv (dtp f)"
  "seqq (dtp (snd (ctrl_pdu_alloc E a f ty ack))) = seqq (dtp f)"
  "seqq_len (dtp (snd (ctrl_pdu_alloc E a f ty ack))) = seqq_len (dtp f)"
  "rtxq (dtp (snd (ctrl_pdu_alloc E a f ty ack))) = rtxq (dtp f)"
  "cwq (dtp (snd (ctrl_pdu_alloc E a f ty ack))) = cwq (dtp f)"
  "stats (snd (ctrl_pdu_alloc E a f ty ack)) = stats f"
  "cfg (snd (ctrl_pdu_alloc E a f ty ack)) = cfg f"
  "remote_addr (snd (ctrl_pdu_alloc E a f ty ack)) = remote_addr f"
  by (simp_all add: ctrl_pdu_alloc_snd split: option.splits)

lemma rcvr_flow_control_frame [simp]:
  "rcv_lwe (dtp (rcvr_flow_control f)) = rcv_lwe (dtp f)"
  "rcv_lwe_priv (dtp (rcvr_flow_control f)) = rcv_lwe_priv (dtp f)"
  "seqq (dtp (rcvr_flow_control f)) = seqq (dtp f)"
  "seqq_len (dtp (rcvr_flow_control f)) = seqq_len (dtp f)"
  "rtxq (dtp (rcvr_flow_control f)) = rtxq (dtp f)"
  "cwq (dtp (rcvr_flow_control f)) = cwq (dtp f)"
  "stats (rcvr_flow_control f) = stats f"
  "cfg (rcvr_flow_control f) = cfg f"
  "remote_addr (rcvr_flow_control f) = remote_addr f"
  by (simp_all add: rcvr_flow_control_def)

lemma sv_update_frame [simp]:
  "rcv_lwe (dtp (snd (sdu_rx_sv_update K E a f))) = rcv_lwe (dtp f)"
  "rcv_lwe_priv (dtp (snd (sdu_rx_sv_update K E a f))) = rcv_lwe_priv (dtp f)"
  "seqq (dtp (snd (sdu_rx_sv_update K E a f))) = seqq (dtp f)"
  "seqq_len (dtp (snd (sdu_rx_sv_update K E a f))) = seqq_len (dtp f)"
  "rtxq (dtp (snd (sdu_rx_sv_update K E a f))) = rtxq (dtp f)"
  "cwq (dtp (snd (sdu_rx_sv_update K E a f))) = cwq (dtp f)"
  "stats (snd (sdu_rx_sv_update K E a f)) = stats f"
  "cfg (snd (sdu_rx_sv_update K E a f)) = cfg f"
  "remote_addr (snd (sdu_rx_sv_update K E a f)) = remote_addr f"
  by (simp_all add: sdu_rx_sv_update_def Let_def)

lemma rx_count_frame [simp]:
  "dtp (rx_count f rb) = dtp f" "cfg (rx_count f rb) = cfg f"
  "remote_addr (rx_count f rb) = remote_addr f"
  by (simp_all add: rx_count_def)

lemma rcv_inact_rearm_frame [simp]:
  "rcv_lwe (dtp (rcv_inact_rearm E f)) = rcv_lwe (dtp f)"
  "rcv_lwe_priv (dtp (rcv_inact_rearm E f)) = rcv_lwe_priv (dtp f)"
  "seqq (dtp (rcv_inact_rearm E f)) = seqq (dtp f)"
  "seqq_len (dtp (rcv_inact_rearm E f)) = seqq_len (dtp f)"
  "cfg (rcv_inact_rearm E f) = cfg f"
  "remote_addr (rcv_inact_rearm E f) = remote_addr f"
  "upper_ipcp (rcv_inact_rearm E f) = upper_ipcp f"
  by (simp_all add: rcv_inact_rearm_def)

lemma max_seq_num_update_frame [simp]:
  "rcv_lwe (dtp (max_seq_num_update s f)) = rcv_lwe (dtp f)"
  "rcv_lwe_priv (dtp (max_seq_num_update s f)) = rcv_lwe_priv (dtp f)"
  "seqq (dtp (max_seq_num_update s f)) = seqq (dtp f)"
  "seqq_len (dtp (max_seq_num_update s f)) = seqq_len (dtp f)"
  "cfg (max_seq_num_update s f) = cfg f"
  "remote_addr (max_seq_num_update s f) = remote_addr f"
  "upper_ipcp (max_seq_num_update s f) = upper_ipcp f"
  by (simp_all add: max_seq_num_update_def)

lemma seqq_pop_many_frame [simp]:
  "rcv_lwe (fst (seqq_pop_many d gap)) = rcv_lwe d"
  "rcv_lwe_priv (fst (seqq_pop_many d gap)) = snd (snd (seqq_pop_scan gap (seqq d) (rcv_lwe_priv d)))"
  "seqq (fst (seqq_pop_many d gap)) = fst (seqq_pop_scan gap (seqq d) (rcv_lwe_priv d))"
  "snd (seqq_pop_many d gap) = fst (snd (seqq_pop_scan gap (seqq d) (rcv_lwe_priv d)))"
  by (simp_all add: seqq_pop_many_def split_beta)

lemma seqq_insert_None: "seqq_insert rb q = None \<longleftrightarrow> seqq_has_dup rb q"
  by (induction q) (auto simp: seqq_has_dup_def)

lemma seqq_insert_Some:
  "seqq_insert rb q = Some q' \<Longrightarrow> set q' = insert rb (set q) \<and> length q' = Suc (length q)"
  by (induction q arbitrary: q') (auto split: if_splits)

lemma seqq_push_frame [simp]:
  "rcv_lwe (fst (seqq_push d rb)) = rcv_lwe d"
  "rcv_lwe_priv (fst (seqq_push d rb)) = rcv_lwe_priv d"
  by (simp_all add: seqq_push_def split: option.splits)

lemma seqq_push_full:
  assumes "seqq_len d \<ge> 64 \<or> seqq_has_dup rb (seqq d)"
  shows "seqq_push d rb = (d, [Free rb])"
  using assms
  by (auto simp: seqq_push_def SEQQ_MAX_LEN_def seqq_insert_None [symmetric] split: option.splits)

lemma seqq_push_held:
  assumes "\<not> (seqq_len d \<ge> 64 \<or> seqq_has_dup rb (seqq d))"
  shows "snd (seqq_push d rb) = []"
    "set (seqq (fst (seqq_push d rb))) = insert rb (set (seqq d))"
    "length (seqq (fst (seqq_push d rb))) = Suc (length (seqq d))"
    "seqq_len (fst (seqq_push d rb)) = seqq_len d + 1"
  using assms
  by (auto simp: seqq_push_def SEQQ_MAX_LEN_def seqq_insert_None [symmetric]
           dest: seqq_insert_Some split: option.splits)



lemma sdu_rx_drop_edges:
  "rcv_lwe (dtp (fst (sdu_rx_drop K E a f rb))) = rcv_lwe (dtp f)"
  "rcv_lwe_priv (dtp (fst (sdu_rx_drop K E a f rb))) = rcv_lwe_priv (dtp f)"
  "seqq (dtp (fst (sdu_rx_drop K E a f rb))) = seqq (dtp f)"
  "seqq_len (dtp (fst (sdu_rx_drop K E a f rb))) = seqq_len (dtp f)"
  by (simp_all add: sdu_rx_drop_def Let_def)

lemma sdu_rx_hold_edges:
  "rcv_lwe (dtp (fst (sdu_rx_hold K E a f rb))) = rcv_lwe (dtp f)"
  "rcv_lwe_priv (dtp (fst (sdu_rx_hold K E a f rb))) = rcv_lwe_priv (dtp f)"
  "seqq (dtp (fst (sdu_rx_hold K E a f rb))) = seqq (fst (seqq_push (dtp f) rb))"
  "seqq_len (dtp (fst (sdu_rx_hold K E a f rb))) = seqq_len (fst (seqq_push (dtp f) rb))"
  by (simp_all add: sdu_rx_hold_def Let_def)

lemma sdu_rx_deliver_edges:
  "rcv_lwe_priv (dtp (fst (sdu_rx_deliver K E a f rb))) =
     snd (snd (seqq_pop_scan (max_sdu_gap (cfg f)) (seqq (dtp f)) (seqnum (pci rb) + 1)))"
  "rcv_lwe (dtp (fst (sdu_rx_deliver K E a f rb))) =
     (if upper_ipcp f \<noteq> None
      then snd (snd (seqq_pop_scan (max_sdu_gap (cfg f)) (seqq (dtp f)) (seqnum (pci rb) + 1)))
      else rcv_lwe (dtp f))"
  "seqq (dtp (fst (sdu_rx_deliver K E a f rb))) =
     fst (seqq_pop_scan (max_sdu_gap (cfg f)) (seqq (dtp f)) (seqnum (pci rb) + 1))"
  by (simp_all add: sdu_rx_deliver_def Let_def)

lemma sdu_rx_drop_effs:
  "\<exists>crb. snd (sdu_rx_drop K E a f rb) = Free rb # snd_crb (remote_addr f) crb"
  by (auto simp: sdu_rx_drop_def Let_def)

lemma sdu_rx_hold_effs:
  "\<exists>crb. snd (sdu_rx_hold K E a f rb) =
          snd (seqq_push (dtp f) rb) @ snd_crb (remote_addr f) crb"
  by (auto simp: sdu_rx_hold_def Let_def)

lemma sdu_rx_deliver_effs:
  "\<exists>crb. snd (sdu_rx_deliver K E a f rb) =
     (case rlite_buf_pci_pop K rb of
        None \<Rightarrow> [Free rb]
      | Some rb' \<Rightarrow> SduRxFlow rb' (\<not> flow_control (dtcp (cfg f))) #
           map (deliver_up K (\<not> flow_control (dtcp (cfg f))))
             (fst (snd (seqq_pop_scan (max_sdu_gap (cfg f)) (seqq (dtp f)) (seqnum (pci rb) + 1)))))
     @ snd_crb (remote_addr f) crb"
proof (cases "upper_ipcp f")
  case None
  then show ?thesis by (auto simp: sdu_rx_deliver_def Let_def split: option.splits)
next
  case (Some u)
  then show ?thesis by (auto simp: sdu_rx_deliver_def Let_def split: option.splits)
qed


lemma drop_rule_iff:
  "drop_rule c gap \<longleftrightarrow>
     (in_order_delivery c \<or> dtcp_present c) \<and> \<not> rtx_control (dtcp c) \<and> gap > max_sdu_gap c"
  by (simp add: drop_rule_def a_timer_def)

lemma sdu_rx_data_fresh:
  assumes "pdu_flags (pci rb) AND 1 = 0" "\<not> seqnum (pci rb) < rcv_lwe_priv (dtp f)"
  shows "sdu_rx_data K E a f rb =
     (let f1 = max_seq_num_update (seqnum (pci rb)) (rcv_inact_rearm E f);
          gap = seqnum (pci rb) - rcv_lwe_priv (dtp f)
      in if deliver_rule (cfg f) gap then sdu_rx_deliver K E a f1 rb
         else if drop_rule (cfg f) gap then sdu_rx_drop K E a f1 rb
         else sdu_rx_hold K E a f1 rb)"
  using assms by (simp add: sdu_rx_data_def Let_def)

text \<open>
  Claim C6, amended. For a data PDU with the DRF flag clear and a sequence number
  not below \<open>rcv_lwe_priv\<close>, with \<open>gap = seqnum - rcv_lwe_priv\<close>: if
  (\<open>in_order_delivery\<close> or \<open>dtcp_present\<close>) and not \<open>rtx_control\<close> and
  \<open>gap > max_sdu_gap\<close> (the A timer is 0), the PDU is freed and \<open>seqq\<close> is left
  alone; else, if \<open>gap \<le> max_sdu_gap\<close>, it is handed to the upper layer (or freed
  when its PCI cannot be stripped); otherwise it goes to \<^verbatim>\<open>seqq_push\<close>, which
  holds it in \<open>seqq\<close> unless \<open>seqq_len \<ge> 64\<close> or a buffer of the same sequence
  number is met first, and then frees it.
\<close>

theorem sdu_rx_data_drop_deliver_hold:
  assumes "pdu_flags (pci rb) AND 1 = 0" and "\<not> seqnum (pci rb) < rcv_lwe_priv (dtp flow)"
    and "gap = seqnum (pci rb) - rcv_lwe_priv (dtp flow)"
    and "sdu_rx_data K E a flow rb = (flow', effs)"
  shows
    "if (in_order_delivery (cfg flow) \<or> dtcp_present (cfg flow)) \<and>
        \<not> rtx_control (dtcp (cfg flow)) \<and> gap > max_sdu_gap (cfg flow)
     then (\<exists>crb. effs = Free rb # snd_crb (remote_addr flow) crb) \<and>
          seqq (dtp flow') = seqq (dtp flow)
     else if gap \<le> max_sdu_gap (cfg flow)
     then (case rlite_buf_pci_pop K rb of
             None \<Rightarrow> \<exists>crb. effs = Free rb # snd_crb (remote_addr flow) crb
           | Some rb' \<Rightarrow> \<exists>rest. effs = SduRxFlow rb' (\<not> flow_control (dtcp (cfg flow))) # rest)
     else if seqq_len (dtp flow) \<ge> 64 \<or> seqq_has_dup rb (seqq (dtp flow))
     then (\<exists>crb. effs = Free rb # snd_crb (remote_addr flow) crb) \<and>
          seqq (dtp flow') = seqq (dtp flow)
     else (\<exists>crb. effs = snd_crb (remote_addr flow) crb) \<and>
          set (seqq (dtp flow')) = insert rb (set (seqq (dtp flow))) \<and>
          seqq_len (dtp flow') = seqq_len (dtp flow) + 1"
proof -
  let ?f1 = "max_seq_num_update (seqnum (pci rb)) (rcv_inact_rearm E flow)"
  have fl: "flow' = fst (sdu_rx_data K E a flow rb)" and ef: "effs = snd (sdu_rx_data K E a flow rb)"
    using assms(4) by simp_all
  note fresh = sdu_rx_data_fresh [OF assms(1,2), of K E a, folded assms(3)]
  show ?thesis
  proof (cases "drop_rule (cfg flow) gap")
    case True
    then have nd: "\<not> deliver_rule (cfg flow) gap" by (simp add: deliver_rule_def)
    have "sdu_rx_data K E a flow rb = sdu_rx_drop K E a ?f1 rb"
      using True nd fresh by (simp add: Let_def)
    then show ?thesis
      using True sdu_rx_drop_effs [of K E a ?f1 rb] fl ef
      by (simp add: drop_rule_iff sdu_rx_drop_edges)
  next
    case False
    note nodrop = False
    show ?thesis
    proof (cases "gap \<le> max_sdu_gap (cfg flow)")
      case True
      then have "deliver_rule (cfg flow) gap" using nodrop by (simp add: deliver_rule_def)
      then have "sdu_rx_data K E a flow rb = sdu_rx_deliver K E a ?f1 rb"
        using fresh by (simp add: Let_def)
      then show ?thesis
        using True nodrop sdu_rx_deliver_effs [of K E a ?f1 rb] ef
        by (auto simp: drop_rule_iff split: option.splits)
    next
      case False
      then have nd: "\<not> deliver_rule (cfg flow) gap" by (simp add: deliver_rule_def)
      have h: "sdu_rx_data K E a flow rb = sdu_rx_hold K E a ?f1 rb"
        using nd nodrop fresh by (simp add: Let_def)
      show ?thesis
      proof (cases "seqq_len (dtp flow) \<ge> 64 \<or> seqq_has_dup rb (seqq (dtp flow))")
        case True
        then have "seqq_push (dtp ?f1) rb = (dtp ?f1, [Free rb])"
          by (intro seqq_push_full) simp
        then show ?thesis
          using True False nodrop h sdu_rx_hold_effs [of K E a ?f1 rb] fl ef
          by (simp add: drop_rule_iff sdu_rx_hold_edges)
      next
        case nf: False
        then have "\<not> (seqq_len (dtp ?f1) \<ge> 64 \<or> seqq_has_dup rb (seqq (dtp ?f1)))" by simp
        from seqq_push_held [OF this] show ?thesis
          using nf False nodrop h sdu_rx_hold_effs [of K E a ?f1 rb] fl ef
          by (auto simp: drop_rule_iff sdu_rx_hold_edges)
      qed
    qed
  qed
qed


text \<open>
  The claim as stated fails when \<open>seqq\<close> is full: a PDU that the drop rule does
  not drop and the deliver rule does not deliver is freed, not held.
\<close>

lemma example_seqq_full_eq:
  "example_seqq_full =
     (example_flow False True 0)\<lparr>
        dtp := (dtp (example_flow False True 0))\<lparr>
                 seqq := map (example_buf 128) (map of_nat [1..<65]),
                 seqq_len := 64,
                 rcv_inact_tmr := Some 4005\<rparr>,
        stats := (stats (example_flow False True 0))\<lparr>rx_pkt := 64, rx_byte := 8960\<rparr>\<rparr>"
  by code_simp

theorem sdu_rx_data_seqq_full_counterexample:
  "pdu_flags (pci (example_buf 128 65)) AND 1 = 0 \<and>
   \<not> seqnum (pci (example_buf 128 65)) < rcv_lwe_priv (dtp example_seqq_full) \<and>
   \<not> ((in_order_delivery (cfg example_seqq_full) \<or> dtcp_present (cfg example_seqq_full)) \<and>
      a_timer = 0 \<and> \<not> rtx_control (dtcp (cfg example_seqq_full)) \<and>
      seqnum (pci (example_buf 128 65)) - rcv_lwe_priv (dtp example_seqq_full)
        > max_sdu_gap (cfg example_seqq_full)) \<and>
   \<not> seqnum (pci (example_buf 128 65)) - rcv_lwe_priv (dtp example_seqq_full)
        \<le> max_sdu_gap (cfg example_seqq_full) \<and>
   example_buf 128 65 \<notin>
     set (seqq (dtp (fst (sdu_rx_data example_consts (example_env 5) 2 example_seqq_full
                           (example_buf 128 65))))) \<and>
   snd (sdu_rx_data example_consts (example_env 5) 2 example_seqq_full (example_buf 128 65))
     = [Free (example_buf 128 65)]"
  unfolding example_seqq_full_eq by code_simp

theorem sdu_rx_data_drop_deliver_hold_witness:
  "set (seqq (dtp (fst (sdu_rx_data example_consts (example_env 5) 2 example_rcvd0
                         (example_buf 128 2)))))
     = {example_buf 128 2} \<and>
   snd (sdu_rx_data example_consts (example_env 5) 2 example_rcvd0 (example_buf 128 2)) = []"
proof -
  let ?F = "example_rcvd0"
  let ?rb = "example_buf 128 2"
  let ?r = "sdu_rx_data example_consts (example_env 5) 2 ?F ?rb"
  have h1: "pdu_flags (pci ?rb) AND 1 = 0" by code_simp
  have h2: "\<not> seqnum (pci ?rb) < rcv_lwe_priv (dtp ?F)" by code_simp
  have h4: "?r = (fst ?r, snd ?r)" by simp
  have c: "\<not> ((in_order_delivery (cfg ?F) \<or> dtcp_present (cfg ?F)) \<and>
        \<not> rtx_control (dtcp (cfg ?F)) \<and>
        seqnum (pci ?rb) - rcv_lwe_priv (dtp ?F) > max_sdu_gap (cfg ?F))"
     "\<not> seqnum (pci ?rb) - rcv_lwe_priv (dtp ?F) \<le> max_sdu_gap (cfg ?F)"
     "\<not> (seqq_len (dtp ?F) \<ge> 64 \<or> seqq_has_dup ?rb (seqq (dtp ?F)))"
    by code_simp+
  have q: "seqq (dtp ?F) = []" by code_simp
  from sdu_rx_data_drop_deliver_hold [OF h1 h2 refl h4]
  have "(\<exists>crb. snd ?r = snd_crb (remote_addr ?F) crb) \<and>
         set (seqq (dtp (fst ?r))) = insert ?rb (set (seqq (dtp ?F))) \<and>
         seqq_len (dtp (fst ?r)) = seqq_len (dtp ?F) + 1"
    by (simp only: c if_False)
  moreover have "snd ?r = []" by code_simp
  ultimately show ?thesis using q by simp
qed

section \<open>The scan of the sequencing queue\<close>

lemma seqnums_simps [simp]:
  "seqnums [] = []" "seqnums (b # q) = seqnum (pci b) # seqnums q"
  "seqnums (q @ q') = seqnums q @ seqnums q'"
  "seqnums q = [] \<longleftrightarrow> q = []"
  "length (seqnums q) = length q"
  by (simp_all add: seqnums_def)

lemma word_not_max_less_inc: "(e::64 word) \<noteq> - 1 \<Longrightarrow> e < e + 1"
  using inc_less_eq_self_iff_eq [of e] by (simp add: not_le [symmetric])

lemma seqq_pop_scan_subseq:
  "subseq (fst (snd (seqq_pop_scan gap q L))) q \<and> subseq (fst (seqq_pop_scan gap q L)) q \<and>
   length (fst (seqq_pop_scan gap q L)) + length (fst (snd (seqq_pop_scan gap q L))) = length q"
  by (induction q arbitrary: L) (auto simp: split_beta)

lemma seqq_pop_scan_chain: "pop_chain gap L (fst (snd (seqq_pop_scan gap q L)))"
  by (induction q arbitrary: L) (auto simp: split_beta)

lemma seqq_pop_scan_lwe:
  "snd (snd (seqq_pop_scan gap q L)) =
     (if fst (snd (seqq_pop_scan gap q L)) = [] then L
      else seqnum (pci (last (fst (snd (seqq_pop_scan gap q L))))) + 1)"
  by (induction q arbitrary: L) (auto simp: split_beta)

text \<open>
  The scan in closed form: a buffer is popped exactly when it is within the gap of
  the frontier at its turn, whatever the scan did with the buffers before it.
\<close>

lemma pop_frontier_simps [simp]:
  "pop_frontier gap L [] = L"
  "pop_frontier gap L (b # q) =
     pop_frontier gap (if seqnum (pci b) - L \<le> gap then seqnum (pci b) + 1 else L) q"
  by (simp_all add: pop_frontier_def)

lemma pop_turn_simps [simp]:
  "pop_turn gap L (b # q) 0 \<longleftrightarrow> seqnum (pci b) - L \<le> gap"
  "pop_turn gap L (b # q) (Suc i) \<longleftrightarrow>
     pop_turn gap (if seqnum (pci b) - L \<le> gap then seqnum (pci b) + 1 else L) q i"
  by (simp_all add: pop_turn_def)

lemma upt_Suc_shift: "[0..<Suc n] = 0 # map Suc [0..<n]"
  by (simp add: upt_conv_Cons map_Suc_upt del: upt_Suc)

lemma map_nth_filter_Cons:
  "map ((!) (b # q)) (filter P [0..<Suc (length q)]) =
     (if P 0 then [b] else []) @ map ((!) q) (filter (\<lambda>i. P (Suc i)) [0..<length q])"
  by (simp add: upt_Suc_shift filter_map comp_def del: upt_Suc)

lemma seqq_pop_scan_turns:
  "fst (snd (seqq_pop_scan gap q L)) = map ((!) q) (filter (pop_turn gap L q) [0..<length q]) \<and>
   fst (seqq_pop_scan gap q L) = map ((!) q) (filter (\<lambda>i. \<not> pop_turn gap L q i) [0..<length q]) \<and>
   snd (snd (seqq_pop_scan gap q L)) = pop_frontier gap L q"
proof (induction q arbitrary: L)
  case Nil
  then show ?case by simp
next
  case (Cons b q)
  show ?case
  proof (cases "seqnum (pci b) - L \<le> gap")
    case True
    then show ?thesis using Cons [of "seqnum (pci b) + 1"]
      by (simp add: split_beta map_nth_filter_Cons del: upt_Suc)
  next
    case False
    then show ?thesis using Cons [of L]
      by (simp add: split_beta map_nth_filter_Cons del: upt_Suc)
  qed
qed

text \<open>The queue stays in ascending order.\<close>

lemma seqq_insert_sorted:
  assumes "sorted_wrt (<) (seqnums q)" and "seqq_insert rb q = Some q'"
  shows "sorted_wrt (<) (seqnums q')"
  using assms
proof (induction q arbitrary: q')
  case Nil
  then show ?case by auto
next
  case (Cons cur q)
  show ?case
  proof (cases "seqnum (pci rb) < seqnum (pci cur)")
    case True
    then have "q' = rb # cur # q" using Cons.prems(2) by simp
    then show ?thesis using Cons.prems(1) True by (auto simp: seqnums_def)
  next
    case False
    then obtain q2 where i: "seqq_insert rb q = Some q2" and q': "q' = cur # q2"
      and ne: "seqnum (pci rb) \<noteq> seqnum (pci cur)"
      using Cons.prems(2) by (auto split: if_splits)
    have lt: "seqnum (pci cur) < seqnum (pci rb)" using False ne by simp
    have s2: "sorted_wrt (<) (seqnums q2)" using Cons.IH [OF _ i] Cons.prems(1) by simp
    have "set q2 = insert rb (set q)" using seqq_insert_Some [OF i] by simp
    then have "\<forall>x \<in> set (seqnums q2). seqnum (pci cur) < x"
      using lt Cons.prems(1) by (auto simp: seqnums_def)
    then show ?thesis using s2 q' by simp
  qed
qed

lemma sorted_wrt_subseq_less:
  "subseq xs ys \<Longrightarrow> sorted_wrt (<) ys \<Longrightarrow> sorted_wrt (<) (xs::64 word list)"
proof (induction ys arbitrary: xs)
  case Nil
  then have "xs = []" by (auto dest: list_emb_Nil2)
  then show ?case by simp
next
  case (Cons y ys)
  show ?case
  proof (cases xs)
    case Nil
    then show ?thesis by simp
  next
    case (Cons x xs')
    show ?thesis
    proof (cases "x = y")
      case True
      then have s: "subseq xs' ys" using Cons.prems(1) Cons by simp
      then have "set xs' \<subseteq> set ys" by (auto dest: list_emb_set)
      then show ?thesis using Cons.IH [OF s] Cons.prems(2) Cons True by auto
    next
      case False
      then have "subseq xs ys" using Cons.prems(1) Cons by simp
      then show ?thesis using Cons.IH Cons.prems(2) by simp
    qed
  qed
qed

lemma sorted_seqnums_subseq:
  assumes "subseq q' q" and "sorted_wrt (<) (seqnums q)"
  shows "sorted_wrt (<) (seqnums q')"
proof -
  have "subseq (seqnums q') (seqnums q)" using assms(1) by (simp add: seqnums_def subseq_map)
  then show ?thesis using assms(2) by (rule sorted_wrt_subseq_less)
qed

lemma seqq_push_sorted:
  assumes "sorted_wrt (<) (seqnums (seqq d))"
  shows "sorted_wrt (<) (seqnums (seqq (fst (seqq_push d rb))))"
  using assms by (auto simp: seqq_push_def split: option.splits intro: seqq_insert_sorted)

lemma sdu_rx_data_seqq_sorted:
  assumes "sorted_wrt (<) (seqnums (seqq (dtp f)))"
  shows "sorted_wrt (<) (seqnums (seqq (dtp (fst (sdu_rx_data K E a f rb)))))"
proof -
  let ?f1 = "max_seq_num_update (seqnum (pci rb)) (rcv_inact_rearm E f)"
  have d: "seqq (dtp (fst (sdu_rx_drf K E a (rcv_inact_rearm E f) rb))) = seqq (dtp f)"
    by (simp add: sdu_rx_drf_def Let_def)
  have u: "seqq (dtp (fst (sdu_rx_duplicate K E a (rcv_inact_rearm E f) rb))) = seqq (dtp f)"
    by (simp add: sdu_rx_duplicate_def Let_def split: option.splits)
  have p: "sorted_wrt (<) (seqnums (seqq (dtp (fst (sdu_rx_deliver K E a ?f1 rb)))))"
    using seqq_pop_scan_subseq [of "max_sdu_gap (cfg f)" "seqq (dtp f)" "seqnum (pci rb) + 1"] assms
    by (auto simp: sdu_rx_deliver_edges intro: sorted_seqnums_subseq)
  have h: "sorted_wrt (<) (seqnums (seqq (dtp (fst (sdu_rx_hold K E a ?f1 rb)))))"
    using seqq_push_sorted [of "dtp ?f1" rb] assms by (simp add: sdu_rx_hold_edges)
  show ?thesis using assms d u p h
    by (simp add: sdu_rx_data_def Let_def sdu_rx_drop_edges)
qed

text \<open>
  Claim C8. When a data PDU with sequence number \<open>s\<close> satisfies the deliver rule,
  \<open>rcv_lwe_priv\<close> is set to \<open>s + 1\<close> and \<open>seqq\<close> is gone over once, in queue order:
  every buffer that is within \<open>max_sdu_gap\<close> of \<open>rcv_lwe_priv\<close> at its turn is
  popped, and \<open>rcv_lwe_priv\<close> then moves past it; every other buffer stays, and the
  scan goes on behind it. So \<open>popped\<close> is exactly the buffers within the gap at
  their turn, \<open>seqq\<close> is left with exactly the others, and \<open>rcv_lwe_priv\<close> ends one
  past the last buffer popped (at \<open>s + 1\<close> when none is). The PDU and the popped
  buffers are handed up in that order. Queue order is ascending order: a data PDU
  leaves an ascending \<open>seqq\<close> ascending, and what is popped from it is ascending.
  With \<open>max_sdu_gap = 0\<close> and rtx control, receiving 0, 2, 1 delivers 0, then 1
  followed by 2, and leaves \<open>rcv_lwe_priv = 3\<close>.
\<close>

theorem sdu_rx_data_deliver_pops:
  "(pdu_flags (pci rb) AND 1 = 0 \<and> \<not> seqnum (pci rb) < rcv_lwe_priv (dtp flow) \<and>
    deliver_rule (cfg flow) (seqnum (pci rb) - rcv_lwe_priv (dtp flow)) \<longrightarrow>
    (\<exists>popped crb.
       popped = map ((!) (seqq (dtp flow)))
                  (filter (pop_turn (max_sdu_gap (cfg flow)) (seqnum (pci rb) + 1) (seqq (dtp flow)))
                     [0..<length (seqq (dtp flow))]) \<and>
       seqq (dtp (fst (sdu_rx_data K E a flow rb))) =
         map ((!) (seqq (dtp flow)))
           (filter (\<lambda>i. \<not> pop_turn (max_sdu_gap (cfg flow)) (seqnum (pci rb) + 1)
                            (seqq (dtp flow)) i)
              [0..<length (seqq (dtp flow))]) \<and>
       pop_chain (max_sdu_gap (cfg flow)) (seqnum (pci rb) + 1) popped \<and>
       rcv_lwe_priv (dtp (fst (sdu_rx_data K E a flow rb))) =
         (if popped = [] then seqnum (pci rb) + 1 else seqnum (pci (last popped)) + 1) \<and>
       rcv_lwe_priv (dtp (fst (sdu_rx_data K E a flow rb))) =
         pop_frontier (max_sdu_gap (cfg flow)) (seqnum (pci rb) + 1) (seqq (dtp flow)) \<and>
       snd (sdu_rx_data K E a flow rb) =
         (case rlite_buf_pci_pop K rb of
            None \<Rightarrow> [Free rb]
          | Some rb' \<Rightarrow> SduRxFlow rb' (\<not> flow_control (dtcp (cfg flow))) #
                         map (deliver_up K (\<not> flow_control (dtcp (cfg flow)))) popped)
         @ snd_crb (remote_addr flow) crb \<and>
       (sorted_wrt (<) (seqnums (seqq (dtp flow))) \<longrightarrow> sorted_wrt (<) (seqnums popped)))) \<and>
   (sorted_wrt (<) (seqnums (seqq (dtp flow))) \<longrightarrow>
      sorted_wrt (<) (seqnums (seqq (dtp (fst (sdu_rx_data K E a flow rb)))))) \<and>
   (max_sdu_gap (cfg (example_flow False True 0)) = 0 \<and>
    rtx_control (dtcp (cfg (example_flow False True 0))) \<and>
    deliveries (snd (sdu_rx_data example_consts (example_env 5) 2 (example_flow False True 0)
                       (example_buf 128 0))) = [example_stripped 0] \<and>
    example_rcvd0 = fst (sdu_rx_data example_consts (example_env 5) 2
                           (example_flow False True 0) (example_buf 128 0)) \<and>
    rcv_lwe_priv (dtp example_rcvd0) = 1 \<and>
    deliveries (snd (sdu_rx_data example_consts (example_env 5) 2 example_rcvd0
                       (example_buf 128 2))) = [] \<and>
    example_rcvd02 = fst (sdu_rx_data example_consts (example_env 5) 2 example_rcvd0
                            (example_buf 128 2)) \<and>
    seqq (dtp example_rcvd02) = [example_buf 128 2] \<and>
    deliveries (snd (sdu_rx_data example_consts (example_env 5) 2 example_rcvd02
                       (example_buf 128 1))) = [example_stripped 1, example_stripped 2] \<and>
    rcv_lwe_priv (dtp (fst (sdu_rx_data example_consts (example_env 5) 2 example_rcvd02
                              (example_buf 128 1)))) = 3 \<and>
    seqq (dtp (fst (sdu_rx_data example_consts (example_env 5) 2 example_rcvd02
                      (example_buf 128 1)))) = [])"
proof (intro conjI impI)
  assume h: "pdu_flags (pci rb) AND 1 = 0 \<and> \<not> seqnum (pci rb) < rcv_lwe_priv (dtp flow) \<and>
    deliver_rule (cfg flow) (seqnum (pci rb) - rcv_lwe_priv (dtp flow))"
  let ?f1 = "max_seq_num_update (seqnum (pci rb)) (rcv_inact_rearm E flow)"
  let ?g = "max_sdu_gap (cfg flow)"
  let ?L = "seqnum (pci rb) + 1"
  let ?q = "seqq (dtp flow)"
  let ?scan = "seqq_pop_scan ?g ?q ?L"
  have eq: "sdu_rx_data K E a flow rb = sdu_rx_deliver K E a ?f1 rb"
    using h sdu_rx_data_fresh [of rb flow K E a] by (simp add: Let_def)
  obtain crb where effs: "snd (sdu_rx_data K E a flow rb) =
     (case rlite_buf_pci_pop K rb of
        None \<Rightarrow> [Free rb]
      | Some rb' \<Rightarrow> SduRxFlow rb' (\<not> flow_control (dtcp (cfg flow))) #
           map (deliver_up K (\<not> flow_control (dtcp (cfg flow)))) (fst (snd ?scan)))
     @ snd_crb (remote_addr flow) crb"
    using sdu_rx_deliver_effs [of K E a ?f1 rb] by (auto simp: eq cong: option.case_cong)
  have kept: "seqq (dtp (fst (sdu_rx_data K E a flow rb))) = fst ?scan"
    and lwe: "rcv_lwe_priv (dtp (fst (sdu_rx_data K E a flow rb))) = snd (snd ?scan)"
    by (simp_all add: eq sdu_rx_deliver_edges)
  note turns = seqq_pop_scan_turns [of ?g ?q ?L]
  have p1: "fst (snd ?scan) = map ((!) ?q) (filter (pop_turn ?g ?L ?q) [0..<length ?q])"
    using turns by blast
  have p2: "seqq (dtp (fst (sdu_rx_data K E a flow rb))) =
              map ((!) ?q) (filter (\<lambda>i. \<not> pop_turn ?g ?L ?q i) [0..<length ?q])"
    using turns kept by simp
  have p3: "pop_chain ?g ?L (fst (snd ?scan))" by (rule seqq_pop_scan_chain)
  have p4: "rcv_lwe_priv (dtp (fst (sdu_rx_data K E a flow rb))) =
              (if fst (snd ?scan) = [] then ?L else seqnum (pci (last (fst (snd ?scan)))) + 1)"
    using seqq_pop_scan_lwe [of ?g ?q ?L] lwe by simp
  have p5: "rcv_lwe_priv (dtp (fst (sdu_rx_data K E a flow rb))) = pop_frontier ?g ?L ?q"
    using turns lwe by simp
  have p6: "sorted_wrt (<) (seqnums ?q) \<longrightarrow> sorted_wrt (<) (seqnums (fst (snd ?scan)))"
    using seqq_pop_scan_subseq [of ?g ?q ?L] by (auto intro: sorted_seqnums_subseq)
  show "\<exists>popped crb.
       popped = map ((!) (seqq (dtp flow)))
                  (filter (pop_turn (max_sdu_gap (cfg flow)) (seqnum (pci rb) + 1) (seqq (dtp flow)))
                     [0..<length (seqq (dtp flow))]) \<and>
       seqq (dtp (fst (sdu_rx_data K E a flow rb))) =
         map ((!) (seqq (dtp flow)))
           (filter (\<lambda>i. \<not> pop_turn (max_sdu_gap (cfg flow)) (seqnum (pci rb) + 1)
                            (seqq (dtp flow)) i)
              [0..<length (seqq (dtp flow))]) \<and>
       pop_chain (max_sdu_gap (cfg flow)) (seqnum (pci rb) + 1) popped \<and>
       rcv_lwe_priv (dtp (fst (sdu_rx_data K E a flow rb))) =
         (if popped = [] then seqnum (pci rb) + 1 else seqnum (pci (last popped)) + 1) \<and>
       rcv_lwe_priv (dtp (fst (sdu_rx_data K E a flow rb))) =
         pop_frontier (max_sdu_gap (cfg flow)) (seqnum (pci rb) + 1) (seqq (dtp flow)) \<and>
       snd (sdu_rx_data K E a flow rb) =
         (case rlite_buf_pci_pop K rb of
            None \<Rightarrow> [Free rb]
          | Some rb' \<Rightarrow> SduRxFlow rb' (\<not> flow_control (dtcp (cfg flow))) #
                         map (deliver_up K (\<not> flow_control (dtcp (cfg flow)))) popped)
         @ snd_crb (remote_addr flow) crb \<and>
       (sorted_wrt (<) (seqnums (seqq (dtp flow))) \<longrightarrow> sorted_wrt (<) (seqnums popped))"
    apply (rule exI [where x = "fst (snd ?scan)"])
    apply (rule exI [where x = crb])
    using p1 p2 p3 p4 p5 p6 effs by blast
next
  assume "sorted_wrt (<) (seqnums (seqq (dtp flow)))"
  then show "sorted_wrt (<) (seqnums (seqq (dtp (fst (sdu_rx_data K E a flow rb)))))"
    by (rule sdu_rx_data_seqq_sorted)
qed code_simp+

theorem sdu_rx_data_deliver_pops_witness:
  "seqq (dtp example_stale) = [example_buf 128 5, example_buf 128 12] \<and>
   rcv_lwe_priv (dtp example_stale) = 11 \<and>
   seqq (dtp (fst (sdu_rx_data example_consts (example_env 5) 2 example_stale
                     (example_buf 128 11)))) = [example_buf 128 5] \<and>
   rcv_lwe_priv (dtp (fst (sdu_rx_data example_consts (example_env 5) 2 example_stale
                             (example_buf 128 11)))) = 13 \<and>
   deliveries (snd (sdu_rx_data example_consts (example_env 5) 2 example_stale
                      (example_buf 128 11))) = [example_stripped 11, example_stripped 12]"
proof -
  let ?q = "seqq (dtp example_stale)"
  let ?g = "max_sdu_gap (cfg example_stale)"
  let ?L = "seqnum (pci (example_buf 128 11)) + 1"
  let ?r = "sdu_rx_data example_consts (example_env 5) 2 example_stale (example_buf 128 11)"
  have h: "pdu_flags (pci (example_buf 128 11)) AND 1 = 0 \<and>
      \<not> seqnum (pci (example_buf 128 11)) < rcv_lwe_priv (dtp example_stale) \<and>
      deliver_rule (cfg example_stale)
        (seqnum (pci (example_buf 128 11)) - rcv_lwe_priv (dtp example_stale))"
    by code_simp
  from sdu_rx_data_deliver_pops [THEN conjunct1, THEN mp, OF h,
         of example_consts "example_env 5" 2]
  have k: "seqq (dtp (fst ?r)) =
             map ((!) ?q) (filter (\<lambda>i. \<not> pop_turn ?g ?L ?q i) [0..<length ?q])"
    and l: "rcv_lwe_priv (dtp (fst ?r)) = pop_frontier ?g ?L ?q"
    by blast+
  have kv: "map ((!) ?q) (filter (\<lambda>i. \<not> pop_turn ?g ?L ?q i) [0..<length ?q])
              = [example_buf 128 5]"
    by code_simp
  have lv: "pop_frontier ?g ?L ?q = 13" by code_simp
  have s: "seqq (dtp example_stale) = [example_buf 128 5, example_buf 128 12] \<and>
           rcv_lwe_priv (dtp example_stale) = 11 \<and>
           deliveries (snd ?r) = [example_stripped 11, example_stripped 12]"
    by code_simp
  show ?thesis using s k l unfolding kv lv by blast
qed

section \<open>The receive window edges\<close>

lemma rlite_rtxq_push_rcv [simp]:
  "rcv_lwe (snd (rlite_rtxq_push E d rb)) = rcv_lwe d"
  "rcv_lwe_priv (snd (rlite_rtxq_push E d rb)) = rcv_lwe_priv d"
  by (simp_all add: rlite_rtxq_push_def Let_def split: option.splits)





lemma nowrap_inc:
  assumes "unat (s::64 word) + 1 + unat (gap::64 word) < 2 ^ 64"
  shows "s < s + 1" and "unat (s + 1) + unat gap < 2 ^ 64"
proof -
  have "unat s + unat (1::64 word) < 2 ^ LENGTH(64)" using assms by simp
  then have u: "unat (s + 1) = unat s + unat (1::64 word)" by (simp only: unat_add_lem)
  then have u': "unat (s + 1) = unat s + 1" by simp
  then show "s < s + 1" by (simp add: word_less_nat_alt)
  show "unat (s + 1) + unat gap < 2 ^ 64" using assms u' by simp
qed

lemma seq_nowrap_inc:
  assumes "seq_nowrap gap b"
  shows "seqnum (pci b) < seqnum (pci b) + 1"
    and "unat (seqnum (pci b) + 1) + unat gap < 2 ^ 64"
  using assms nowrap_inc [of "seqnum (pci b)" gap] unfolding seq_nowrap_def by blast+

text \<open>The bound in terms of the 64-bit operations: neither addition wraps.\<close>

lemma seq_nowrap_iff [code]:
  "seq_nowrap gap b \<longleftrightarrow>
     seqnum (pci b) < seqnum (pci b) + 1 \<and> seqnum (pci b) + 1 \<le> seqnum (pci b) + 1 + gap"
proof
  assume a: "seq_nowrap gap b"
  from seq_nowrap_inc [OF a]
  show "seqnum (pci b) < seqnum (pci b) + 1 \<and> seqnum (pci b) + 1 \<le> seqnum (pci b) + 1 + gap"
    by (simp add: no_olen_add_nat)
next
  assume b: "seqnum (pci b) < seqnum (pci b) + 1 \<and>
             seqnum (pci b) + 1 \<le> seqnum (pci b) + 1 + gap"
  then have "seqnum (pci b) \<le> seqnum (pci b) + 1" by (blast intro: less_imp_le)
  then have "unat (seqnum (pci b)) + unat (1::64 word) < 2 ^ LENGTH(64)"
    by (simp only: no_olen_add_nat)
  then have u: "unat (seqnum (pci b) + 1) = unat (seqnum (pci b)) + unat (1::64 word)"
    by (simp only: unat_add_lem)
  have "unat (seqnum (pci b) + 1) + unat gap < 2 ^ LENGTH(64)"
    using b by (simp only: no_olen_add_nat)
  then show "seq_nowrap gap b" using u by (simp add: seq_nowrap_def)
qed











section \<open>Control PDUs: the window update and the acknowledgement\<close>

lemma rlite_rtxq_push_snd:
  "snd (rlite_rtxq_push E d rb) =
     (if clone_ok E rb
      then d\<lparr>rtxq := rtxq d @ [rb\<lparr>rtx_jiffies := jiffies E + rtx_tmr_int d\<rparr>],
             rtxq_len := rtxq_len d + 1,
             rtx_tmr_next := (if rtx_tmr d = None then Some (length (rtxq d)) else rtx_tmr_next d),
             rtx_tmr := (if rtx_tmr d = None then Some (jiffies E + rtx_tmr_int d) else rtx_tmr d)\<rparr>
      else d)"
  by (simp add: rlite_rtxq_push_def rlite_buf_clone_def Let_def)

lemma rlite_rtxq_push_frame [simp]:
  "snd_lwe (snd (rlite_rtxq_push E d rb)) = snd_lwe d"
  "snd_rwe (snd (rlite_rtxq_push E d rb)) = snd_rwe d"
  "cwq (snd (rlite_rtxq_push E d rb)) = cwq d"
  "cwq_len (snd (rlite_rtxq_push E d rb)) = cwq_len d"
  "last_seq_num_sent (snd (rlite_rtxq_push E d rb)) = last_seq_num_sent d"
  "last_ctrl_seq_num_rcvd (snd (rlite_rtxq_push E d rb)) = last_ctrl_seq_num_rcvd d"
  "next_seq_num_to_send (snd (rlite_rtxq_push E d rb)) = next_seq_num_to_send d"
  "rtx_tmr_int (snd (rlite_rtxq_push E d rb)) = rtx_tmr_int d"
  "rtxq (snd (rlite_rtxq_push E d rb)) =
     rtxq d @ (if clone_ok E rb then [rb\<lparr>rtx_jiffies := jiffies E + rtx_tmr_int d\<rparr>] else [])"
  by (simp_all add: rlite_rtxq_push_snd)

lemma cwq_pop_frame [simp]:
  "snd_lwe (cwq_pop E r q b d) = snd_lwe d + 1"
  "snd_rwe (cwq_pop E r q b d) = snd_rwe d"
  "cwq (cwq_pop E r q b d) = q"
  "cwq_len (cwq_pop E r q b d) = cwq_len d - 1"
  "last_seq_num_sent (cwq_pop E r q b d) = snd_lwe d"
  "last_ctrl_seq_num_rcvd (cwq_pop E r q b d) = last_ctrl_seq_num_rcvd d"
  "next_seq_num_to_send (cwq_pop E r q b d) = next_seq_num_to_send d"
  "rtx_tmr_int (cwq_pop E r q b d) = rtx_tmr_int d"
  "rtxq (cwq_pop E r q b d) =
     rtxq d @ (if r \<and> clone_ok E b then [b\<lparr>rtx_jiffies := jiffies E + rtx_tmr_int d\<rparr>] else [])"
  by (simp_all add: cwq_pop_def Let_def)

text \<open>The loop over \<open>cwq\<close>, in terms of the number of buffers it takes out.\<close>

lemma cwq_drain_frame:
  "snd_rwe (fst (cwq_drain E r q d)) = snd_rwe d \<and>
   next_seq_num_to_send (fst (cwq_drain E r q d)) = next_seq_num_to_send d \<and>
   last_ctrl_seq_num_rcvd (fst (cwq_drain E r q d)) = last_ctrl_seq_num_rcvd d \<and>
   rtx_tmr_int (fst (cwq_drain E r q d)) = rtx_tmr_int d"
  by (induction q arbitrary: d) (simp_all add: split_beta)

lemma cwq_drain_prefix:
  "snd (cwq_drain E r q d) = take (length (snd (cwq_drain E r q d))) q"
  by (induction q arbitrary: d) (simp_all add: split_beta)

lemma cwq_drain_cwq:
  "cwq d = q \<Longrightarrow> cwq (fst (cwq_drain E r q d)) = drop (length (snd (cwq_drain E r q d))) q"
  by (induction q arbitrary: d) (simp_all add: split_beta)

lemma cwq_drain_cwq_len:
  "cwq_len (fst (cwq_drain E r q d)) = cwq_len d - of_nat (length (snd (cwq_drain E r q d)))"
  by (induction q arbitrary: d) (simp_all add: split_beta)

lemma cwq_drain_snd_lwe:
  "snd_lwe (fst (cwq_drain E r q d)) = snd_lwe d + of_nat (length (snd (cwq_drain E r q d)))"
  by (induction q arbitrary: d) (simp_all add: split_beta)



lemma cwq_drain_closed:
  "length (snd (cwq_drain E r q d)) < length q \<Longrightarrow>
     snd_rwe d \<le> snd_lwe d + of_nat (length (snd (cwq_drain E r q d)))"
proof (induction q arbitrary: d)
  case Nil
  then show ?case by simp
next
  case (Cons b q)
  show ?case
  proof (cases "snd_rwe d \<le> snd_lwe d")
    case True
    then show ?thesis by simp
  next
    case False
    then have "length (snd (cwq_drain E r q (cwq_pop E r q b d))) < length q"
      using Cons.prems by (simp add: split_beta)
    from Cons.IH [OF this] show ?thesis using False by (simp add: split_beta ac_simps)
  qed
qed

lemma cwq_drain_rtxq:
  "rtxq (fst (cwq_drain E r q d)) =
     rtxq d @ (if r then map (\<lambda>b. b\<lparr>rtx_jiffies := jiffies E + rtx_tmr_int d\<rparr>)
                           (filter (clone_ok E) (snd (cwq_drain E r q d)))
               else [])"
proof (induction q arbitrary: d)
  case Nil
  then show ?case by simp
next
  case (Cons b q)
  show ?case using Cons.IH [of "cwq_pop E r q b d"] by (cases r) (simp_all add: split_beta)
qed

text \<open>The loop over \<open>rtxq\<close>.\<close>

lemma rtxq_del_frame [simp]:
  "snd_lwe (rtxq_del q d) = snd_lwe d"
  "snd_rwe (rtxq_del q d) = snd_rwe d"
  "cwq (rtxq_del q d) = cwq d"
  "cwq_len (rtxq_del q d) = cwq_len d"
  "last_seq_num_sent (rtxq_del q d) = last_seq_num_sent d"
  "last_ctrl_seq_num_rcvd (rtxq_del q d) = last_ctrl_seq_num_rcvd d"
  "next_seq_num_to_send (rtxq_del q d) = next_seq_num_to_send d"
  "rtxq (rtxq_del q d) = q"
  "rtx_tmr (rtxq_del q d) = rtx_tmr d"
  by (simp_all add: rtxq_del_def)

lemma rtxq_ack_frame:
  "snd_lwe (fst (rtxq_ack A q d)) = snd_lwe d \<and>
   snd_rwe (fst (rtxq_ack A q d)) = snd_rwe d \<and>
   cwq (fst (rtxq_ack A q d)) = cwq d \<and>
   cwq_len (fst (rtxq_ack A q d)) = cwq_len d \<and>
   last_seq_num_sent (fst (rtxq_ack A q d)) = last_seq_num_sent d \<and>
   last_ctrl_seq_num_rcvd (fst (rtxq_ack A q d)) = last_ctrl_seq_num_rcvd d \<and>
   next_seq_num_to_send (fst (rtxq_ack A q d)) = next_seq_num_to_send d"
  by (induction q arbitrary: d) (simp_all add: split_beta)

lemma rtxq_ack_rtxq:
  "rtxq d = q \<Longrightarrow>
     rtxq (fst (rtxq_ack A q d)) = dropWhile (\<lambda>b. seqnum (pci b) \<le> A) q"
  by (induction q arbitrary: d) (simp_all add: split_beta)


text \<open>
  The timer pointer after the loop, with \<open>k\<close> the number of buffers removed: a
  pointer to a removed buffer, or no pointer, ends on the first buffer left (with
  the timer set to its deadline) or as \<^verbatim>\<open>NULL\<close> when none is left; a pointer to a
  buffer left stays on it.
\<close>

lemma rtxq_ack_tmr_removed:
  assumes "rtx_tmr_next d = None \<or> (\<exists>i. rtx_tmr_next d = Some i \<and>
             i < length (takeWhile (\<lambda>b. seqnum (pci b) \<le> A) q))"
  shows "rtx_tmr_next (fst (rtxq_ack A q d)) =
           (if dropWhile (\<lambda>b. seqnum (pci b) \<le> A) q = [] then None else Some 0) \<and>
         rtx_tmr (fst (rtxq_ack A q d)) =
           (if dropWhile (\<lambda>b. seqnum (pci b) \<le> A) q = [] then rtx_tmr d
            else Some (rtx_jiffies (hd (dropWhile (\<lambda>b. seqnum (pci b) \<le> A) q))))"
  using assms
proof (induction q arbitrary: d)
  case Nil
  then show ?case by simp
next
  case (Cons b q)
  show ?case
  proof (cases "seqnum (pci b) \<le> A")
    case True
    have "rtx_tmr_next (rtxq_del q d) = None \<or> (\<exists>i. rtx_tmr_next (rtxq_del q d) = Some i \<and>
             i < length (takeWhile (\<lambda>b. seqnum (pci b) \<le> A) q))"
      using Cons.prems True by (auto simp: rtxq_del_def split: nat.splits)
    from Cons.IH [OF this] show ?thesis using True
      by (simp add: split_beta)
  next
    case False
    then show ?thesis using Cons.prems by auto
  qed
qed

lemma rtxq_ack_tmr_kept:
  assumes "rtx_tmr_next d = Some i"
    and "length (takeWhile (\<lambda>b. seqnum (pci b) \<le> A) q) \<le> i"
  shows "rtx_tmr_next (fst (rtxq_ack A q d)) =
           Some (i - length (takeWhile (\<lambda>b. seqnum (pci b) \<le> A) q)) \<and>
         rtx_tmr (fst (rtxq_ack A q d)) = rtx_tmr d"
  using assms
proof (induction q arbitrary: d i)
  case Nil
  then show ?case by simp
next
  case (Cons b q)
  show ?case
  proof (cases "seqnum (pci b) \<le> A")
    case True
    then obtain j where j: "i = Suc j" using Cons.prems(2) by (cases i) auto
    then have "rtx_tmr_next (rtxq_del q d) = Some j" using Cons.prems(1)
      by (simp add: rtxq_del_def)
    moreover have "length (takeWhile (\<lambda>b. seqnum (pci b) \<le> A) q) \<le> j"
      using Cons.prems(2) True j by simp
    ultimately show ?thesis using Cons.IH [of "rtxq_del q d" j] True j by (simp add: split_beta)
  next
    case False
    then show ?thesis using Cons.prems by simp
  qed
qed

lemma sorted_dropWhile_above:
  assumes "sorted_wrt (<) (map (\<lambda>b. seqnum (pci b)) q)"
  shows "\<forall>b \<in> set (dropWhile (\<lambda>b. seqnum (pci b) \<le> (A::64 word)) q). A < seqnum (pci b)"
  using assms
proof (induction q)
  case Nil
  then show ?case by simp
next
  case (Cons c q)
  then show ?case by (auto simp: not_le)
qed

lemma sdu_rx_ctrl_accepted:
  assumes "pdu_type (pci rb) AND PDU_T_CTRL_MASK K = PDU_T_CTRL_MASK K"
    and "\<not> ctrl_duplicate (dtp flow) (seqnum (pci rb))"
  shows "sdu_rx_ctrl K E flow rb =
     (let d0 = (dtp flow)\<lparr>last_ctrl_seq_num_rcvd := seqnum (pci rb)\<rparr>;
          r1 = sdu_rx_ctrl_fc K E (cfg flow) (pci rb) d0;
          r2 = sdu_rx_ctrl_ack K (pci rb) (fst r1)
      in (flow\<lparr>dtp := fst r2\<rparr>,
          snd r2 @ [Free rb] @ map (\<lambda>qrb. RmtTx (dst_addr (pci qrb)) qrb False) (snd r1)
            @ [WriteRestart]))"
  using assms by (simp add: sdu_rx_ctrl_def Let_def split_beta)


lemma sdu_rx_ctrl_ack_frame:
  "last_ctrl_seq_num_rcvd (fst (sdu_rx_ctrl_ack K p d)) = last_ctrl_seq_num_rcvd d \<and>
   snd_lwe (fst (sdu_rx_ctrl_ack K p d)) = snd_lwe d \<and>
   snd_rwe (fst (sdu_rx_ctrl_ack K p d)) = snd_rwe d \<and>
   cwq (fst (sdu_rx_ctrl_ack K p d)) = cwq d \<and>
   cwq_len (fst (sdu_rx_ctrl_ack K p d)) = cwq_len d \<and>
   last_seq_num_sent (fst (sdu_rx_ctrl_ack K p d)) = last_seq_num_sent d \<and>
   next_seq_num_to_send (fst (sdu_rx_ctrl_ack K p d)) = next_seq_num_to_send d"
  using rtxq_ack_frame [of "ack_nack_seq_num p" "rtxq d" d]
  by (simp add: sdu_rx_ctrl_ack_def split_beta)

lemma sdu_rx_ctrl_ack_rtxq:
  "rtxq (fst (sdu_rx_ctrl_ack K p d)) =
     (if pdu_type p AND PDU_T_ACK_BIT K \<noteq> 0 \<and> pdu_type p AND PDU_T_ACK_MASK K = PDU_T_ACK K
      then dropWhile (\<lambda>b. seqnum (pci b) \<le> ack_nack_seq_num p) (rtxq d) else rtxq d)"
  by (simp add: sdu_rx_ctrl_ack_def split_beta rtxq_ack_rtxq)








lemma rmt_sends_Free [simp]: "rmt_sends (map Free l @ es) = rmt_sends es"
  by (induction l) simp_all

lemma rmt_sends_RmtTx [simp]:
  "rmt_sends (map (\<lambda>qrb. RmtTx (f qrb) qrb ms) l @ es) =
     map (\<lambda>qrb. RmtTx (f qrb) qrb ms) l @ rmt_sends es"
  by (induction l) simp_all

lemma sdu_rx_ctrl_fc_ignored:
  assumes "pdu_type p AND PDU_T_FC_BIT K = 0 \<or> new_rwe p < snd_rwe d"
  shows "sdu_rx_ctrl_fc K E c p d = (d, [])"
  using assms by (auto simp: sdu_rx_ctrl_fc_def)

lemma sdu_rx_ctrl_fc_update:
  assumes "pdu_type p AND PDU_T_FC_BIT K \<noteq> 0" and "\<not> new_rwe p < snd_rwe d"
  shows "sdu_rx_ctrl_fc K E c p d =
           cwq_drain E (rtx_control (dtcp c)) (cwq d) (d\<lparr>snd_rwe := new_rwe p\<rparr>)"
  using assms by (simp add: sdu_rx_ctrl_fc_def)




section \<open>Acknowledgements\<close>

lemma sorted_rtxq_clones:
  assumes "sorted_wrt (<) (map (\<lambda>b. seqnum (pci b)) (xs @ ys))"
  shows "sorted_wrt (<) (map (\<lambda>b. seqnum (pci b))
           (xs @ map (\<lambda>b. b\<lparr>rtx_jiffies := t\<rparr>) (filter p (take n ys))))"
proof -
  have m: "map (\<lambda>b. seqnum (pci b)) (map (\<lambda>b. b\<lparr>rtx_jiffies := t\<rparr>) l) =
           map (\<lambda>b. seqnum (pci b)) l" for l
    by (induction l) simp_all
  have s1: "sorted_wrt (<) (map (\<lambda>b. seqnum (pci b)) xs)"
    and s2: "sorted_wrt (<) (map (\<lambda>b. seqnum (pci b)) ys)"
    and s3: "\<forall>x \<in> set xs. \<forall>y \<in> set ys. seqnum (pci x) < seqnum (pci y)"
    using assms by (auto simp: sorted_wrt_append)
  have "sorted_wrt (\<lambda>x y. seqnum (pci x) < seqnum (pci y)) ys"
    using s2 by (simp add: sorted_wrt_map)
  then have "sorted_wrt (\<lambda>x y. seqnum (pci x) < seqnum (pci y)) (filter p (take n ys))"
    by (intro sorted_wrt_filter sorted_wrt_take)
  then have "sorted_wrt (<) (map (\<lambda>b. seqnum (pci b)) (filter p (take n ys)))"
    by (simp add: sorted_wrt_map)
  moreover have "\<forall>x \<in> set xs. \<forall>y \<in> set (filter p (take n ys)). seqnum (pci x) < seqnum (pci y)"
    using s3 by (auto dest: in_set_takeD)
  ultimately show ?thesis using s1 by (simp add: sorted_wrt_append comp_def)
qed

lemma sdu_rx_ctrl_fc_rtxq_sorted:
  assumes "sorted_wrt (<) (map (\<lambda>b. seqnum (pci b)) (rtxq d @ cwq d))"
  shows "sorted_wrt (<) (map (\<lambda>b. seqnum (pci b)) (rtxq (fst (sdu_rx_ctrl_fc K E c p d))))"
proof (cases "pdu_type p AND PDU_T_FC_BIT K = 0 \<or> new_rwe p < snd_rwe d")
  case True
  then show ?thesis using assms by (simp add: sdu_rx_ctrl_fc_ignored sorted_wrt_append)
next
  case False
  let ?dd = "d\<lparr>snd_rwe := new_rwe p\<rparr>"
  let ?r = "cwq_drain E (rtx_control (dtcp c)) (cwq d) ?dd"
  have eq: "sdu_rx_ctrl_fc K E c p d = ?r" using False by (simp add: sdu_rx_ctrl_fc_update)
  have pre: "snd ?r = take (length (snd ?r)) (cwq d)" by (rule cwq_drain_prefix)
  have "rtxq (fst ?r) = rtxq d @
          (if rtx_control (dtcp c)
           then map (\<lambda>b. b\<lparr>rtx_jiffies := jiffies E + rtx_tmr_int d\<rparr>)
                    (filter (clone_ok E) (snd ?r))
           else [])"
    using cwq_drain_rtxq [of E "rtx_control (dtcp c)" "cwq d" ?dd] by simp
  moreover have "sorted_wrt (<) (map (\<lambda>b. seqnum (pci b))
       (rtxq d @ map (\<lambda>b. b\<lparr>rtx_jiffies := jiffies E + rtx_tmr_int d\<rparr>)
                    (filter (clone_ok E) (snd ?r))))"
    by (subst pre) (rule sorted_rtxq_clones [OF assms])
  moreover have "sorted_wrt (<) (map (\<lambda>b. seqnum (pci b)) (rtxq d))"
    using assms by (simp add: sorted_wrt_append)
  ultimately show ?thesis unfolding eq by (cases "rtx_control (dtcp c)") simp_all
qed

text \<open>
  Claim C4. For an accepted control PDU with the ACK bit and the subtype ACK that
  acknowledges \<open>A\<close>, received while \<open>rtxq\<close> followed by \<open>cwq\<close> is sorted by sequence
  number: afterwards no buffer of \<open>rtxq\<close> has a sequence number up to \<open>A\<close>; the
  buffers removed are the head of the queue as the window update of the same PDU
  (if any) left it, \<open>d1\<close>. If \<open>rtx_tmr_next\<close> pointed to a removed buffer and a buffer
  is left, \<open>rtx_tmr_next\<close> points to the first buffer left and the timer is set
  to its deadline. If \<open>rtxq\<close> is empty afterwards, the timer is not pending.
\<close>

theorem ack_removes_acked:
  assumes "pdu_type (pci rb) AND PDU_T_CTRL_MASK K = PDU_T_CTRL_MASK K"
    and "\<not> ctrl_duplicate (dtp flow) (seqnum (pci rb))"
    and "pdu_type (pci rb) AND PDU_T_ACK_BIT K \<noteq> 0"
    and "pdu_type (pci rb) AND PDU_T_ACK_MASK K = PDU_T_ACK K"
    and "sorted_wrt (<) (map (\<lambda>b. seqnum (pci b)) (rtxq (dtp flow) @ cwq (dtp flow)))"
    and "d1 = fst (sdu_rx_ctrl_fc K E (cfg flow) (pci rb)
                    ((dtp flow)\<lparr>last_ctrl_seq_num_rcvd := seqnum (pci rb)\<rparr>))"
    and "flow' = fst (sdu_rx_ctrl K E flow rb)"
  shows
    "(\<forall>b \<in> set (rtxq (dtp flow')). \<not> seqnum (pci b) \<le> ack_nack_seq_num (pci rb)) \<and>
     rtxq (dtp flow') = dropWhile (\<lambda>b. seqnum (pci b) \<le> ack_nack_seq_num (pci rb)) (rtxq d1) \<and>
     (pdu_type (pci rb) AND PDU_T_FC_BIT K = 0 \<longrightarrow>
        rtxq d1 = rtxq (dtp flow) \<and> rtx_tmr_next d1 = rtx_tmr_next (dtp flow) \<and>
        rtx_tmr d1 = rtx_tmr (dtp flow)) \<and>
     ((\<exists>i. rtx_tmr_next d1 = Some i \<and>
            i < length (takeWhile (\<lambda>b. seqnum (pci b) \<le> ack_nack_seq_num (pci rb)) (rtxq d1))) \<and>
      rtxq (dtp flow') \<noteq> [] \<longrightarrow>
        rtx_tmr_next (dtp flow') = Some 0 \<and>
        rtx_tmr (dtp flow') = Some (rtx_jiffies (hd (rtxq (dtp flow'))))) \<and>
     (rtxq (dtp flow') = [] \<longrightarrow> rtx_tmr (dtp flow') = None)"
proof -
  let ?A = "ack_nack_seq_num (pci rb)"
  let ?P = "\<lambda>b. seqnum (pci b) \<le> ?A"
  let ?d0 = "(dtp flow)\<lparr>last_ctrl_seq_num_rcvd := seqnum (pci rb)\<rparr>"
  let ?ra = "rtxq_ack ?A (rtxq d1) d1"
  have fl: "dtp flow' = fst (sdu_rx_ctrl_ack K (pci rb) d1)"
    using sdu_rx_ctrl_accepted [OF assms(1,2), of E] assms(6,7) by (simp add: Let_def)
  have ack: "sdu_rx_ctrl_ack K (pci rb) d1 =
      ((if rtxq (fst ?ra) = [] then (fst ?ra)\<lparr>rtx_tmr := None\<rparr> else fst ?ra), snd ?ra)"
    using assms(3,4) by (simp add: sdu_rx_ctrl_ack_def split_beta)
  have q: "rtxq (fst ?ra) = dropWhile ?P (rtxq d1)" by (simp add: rtxq_ack_rtxq)
  have rt: "rtxq (dtp flow') = dropWhile ?P (rtxq d1)" using fl ack q by simp
  have "sorted_wrt (<) (map (\<lambda>b. seqnum (pci b)) (rtxq d1))"
    unfolding assms(6) by (rule sdu_rx_ctrl_fc_rtxq_sorted) (use assms(5) in simp)
  then have above: "\<forall>b \<in> set (rtxq (dtp flow')). \<not> seqnum (pci b) \<le> ?A"
    using sorted_dropWhile_above [of "rtxq d1" ?A] rt by (simp add: not_le)
  have nofc: "pdu_type (pci rb) AND PDU_T_FC_BIT K = 0 \<longrightarrow>
        rtxq d1 = rtxq (dtp flow) \<and> rtx_tmr_next d1 = rtx_tmr_next (dtp flow) \<and>
        rtx_tmr d1 = rtx_tmr (dtp flow)"
    unfolding assms(6) by (simp add: sdu_rx_ctrl_fc_ignored)
  have tmr: "(\<exists>i. rtx_tmr_next d1 = Some i \<and> i < length (takeWhile ?P (rtxq d1))) \<and>
      rtxq (dtp flow') \<noteq> [] \<longrightarrow>
        rtx_tmr_next (dtp flow') = Some 0 \<and>
        rtx_tmr (dtp flow') = Some (rtx_jiffies (hd (rtxq (dtp flow'))))"
  proof
    assume a: "(\<exists>i. rtx_tmr_next d1 = Some i \<and> i < length (takeWhile ?P (rtxq d1))) \<and>
      rtxq (dtp flow') \<noteq> []"
    then have "rtx_tmr_next d1 = None \<or>
        (\<exists>i. rtx_tmr_next d1 = Some i \<and> i < length (takeWhile ?P (rtxq d1)))" by blast
    from rtxq_ack_tmr_removed [OF this] a rt
    show "rtx_tmr_next (dtp flow') = Some 0 \<and>
        rtx_tmr (dtp flow') = Some (rtx_jiffies (hd (rtxq (dtp flow'))))"
      using fl ack q by simp
  qed
  have empty: "rtxq (dtp flow') = [] \<longrightarrow> rtx_tmr (dtp flow') = None"
    using fl ack by simp
  from above rt nofc tmr empty show ?thesis by blast
qed


theorem ack_removes_acked_witness:
  "filter (\<lambda>b. seqnum (pci b) \<le> ack_nack_seq_num (pci (example_ack_pdu 1 1)))
      (rtxq (dtp (fst (sdu_rx_ctrl example_consts (example_env 9) example_sent5
                         (example_ack_pdu 1 1))))) = [] \<and>
   rtx_tmr_next (dtp (fst (sdu_rx_ctrl example_consts (example_env 9) example_sent5
                             (example_ack_pdu 1 1)))) = Some 0 \<and>
   rtx_tmr (dtp (fst (sdu_rx_ctrl example_consts (example_env 9) example_sent5
                        (example_ack_pdu 1 1))))
     = Some (rtx_jiffies (hd (rtxq (dtp (fst (sdu_rx_ctrl example_consts (example_env 9)
                                               example_sent5 (example_ack_pdu 1 1)))))))"
proof -
  let ?p = "example_ack_pdu 1 1"
  let ?d1 = "fst (sdu_rx_ctrl_fc example_consts (example_env 9) (cfg example_sent5) (pci ?p)
                    ((dtp example_sent5)\<lparr>last_ctrl_seq_num_rcvd := seqnum (pci ?p)\<rparr>))"
  have h: "pdu_type (pci ?p) AND PDU_T_CTRL_MASK example_consts = PDU_T_CTRL_MASK example_consts"
    "\<not> ctrl_duplicate (dtp example_sent5) (seqnum (pci ?p))"
    "pdu_type (pci ?p) AND PDU_T_ACK_BIT example_consts \<noteq> 0"
    "pdu_type (pci ?p) AND PDU_T_ACK_MASK example_consts = PDU_T_ACK example_consts"
    "sorted_wrt (<) (map (\<lambda>b. seqnum (pci b)) (rtxq (dtp example_sent5) @ cwq (dtp example_sent5)))"
    by code_simp+
  have t: "rtx_tmr_next ?d1 = Some 0 \<and>
           0 < length (takeWhile (\<lambda>b. seqnum (pci b) \<le> ack_nack_seq_num (pci ?p)) (rtxq ?d1))"
    by code_simp
  have n: "rtxq (dtp (fst (sdu_rx_ctrl example_consts (example_env 9) example_sent5 ?p))) \<noteq> []"
    by code_simp
  note th = ack_removes_acked [OF h refl refl, of "example_env 9"]
  from th have "\<forall>b \<in> set (rtxq (dtp (fst (sdu_rx_ctrl example_consts (example_env 9)
                                             example_sent5 ?p)))).
                  \<not> seqnum (pci b) \<le> ack_nack_seq_num (pci ?p)"
    by blast
  then have a: "filter (\<lambda>b. seqnum (pci b) \<le> ack_nack_seq_num (pci ?p))
                  (rtxq (dtp (fst (sdu_rx_ctrl example_consts (example_env 9)
                                     example_sent5 ?p)))) = []"
    by (simp only: filter_empty_conv)
  from th t n a show ?thesis by blast
qed

section \<open>The invariant of the sender's queues\<close>

lemma snd_inv_frame:
  assumes "snd_inv f"
    and "seqnums (rtxq (dtp f')) = seqnums (rtxq (dtp f))"
    and "cwq (dtp f') = cwq (dtp f)"
    and "next_seq_num_to_send (dtp f') = next_seq_num_to_send (dtp f)"
    and "snd_lwe (dtp f') = snd_lwe (dtp f)"
    and "snd_rwe (dtp f') = snd_rwe (dtp f)"
    and "cfg f' = cfg f"
  shows "snd_inv f'"
  using assms by (simp add: snd_inv_def)

lemma snd_inv_side:
  assumes "snd_inv f" and "snd_side (dtp f') = snd_side (dtp f)" and "cfg f' = cfg f"
  shows "snd_inv f'"
  using assms by (intro snd_inv_frame [of f f']) (simp_all add: snd_side_def)

lemma ctrl_pdu_alloc_side [simp]:
  "snd_side (dtp (snd (ctrl_pdu_alloc E a f ty ack))) = snd_side (dtp f)"
  by (simp add: ctrl_pdu_alloc_snd snd_side_def split: option.splits)

lemma rcvr_flow_control_side [simp]:
  "snd_side (dtp (rcvr_flow_control f)) = snd_side (dtp f)"
  by (simp add: rcvr_flow_control_def snd_side_def)

lemma sv_update_side [simp]:
  "snd_side (dtp (snd (sdu_rx_sv_update K E a f))) = snd_side (dtp f)"
  by (simp add: sdu_rx_sv_update_def Let_def)

lemma rcv_inact_rearm_side [simp]:
  "snd_side (dtp (rcv_inact_rearm E f)) = snd_side (dtp f)"
  by (simp add: rcv_inact_rearm_def snd_side_def)

lemma max_seq_num_update_side [simp]:
  "snd_side (dtp (max_seq_num_update s f)) = snd_side (dtp f)"
  by (simp add: max_seq_num_update_def snd_side_def)

lemma seqq_push_side [simp]: "snd_side (fst (seqq_push d rb)) = snd_side d"
  by (simp add: seqq_push_def snd_side_def split: option.splits)

lemma seqq_pop_many_side [simp]: "snd_side (fst (seqq_pop_many d gap)) = snd_side d"
  by (simp add: seqq_pop_many_def snd_side_def split_beta)

lemma snd_side_rcv_update [simp]:
  "snd_side (d\<lparr>rcv_lwe := x\<rparr>) = snd_side d"
  "snd_side (d\<lparr>rcv_lwe_priv := y\<rparr>) = snd_side d"
  "snd_side (d\<lparr>max_seq_num_rcvd := z\<rparr>) = snd_side d"
  "snd_side (d\<lparr>last_snd_data_ack := w\<rparr>) = snd_side d"
  "snd_side (d\<lparr>snd_inact_tmr := t\<rparr>) = snd_side d"
  "snd_side (d\<lparr>set_drf := u\<rparr>) = snd_side d"
  by (simp_all add: snd_side_def)

lemma sdu_rx_data_side:
  "snd_side (dtp (fst (sdu_rx_data K E a f rb))) = snd_side (dtp f) \<and>
   cfg (fst (sdu_rx_data K E a f rb)) = cfg f"
  by (simp add: sdu_rx_data_def sdu_rx_drf_def sdu_rx_duplicate_def sdu_rx_deliver_def
        sdu_rx_drop_def sdu_rx_hold_def Let_def split: option.splits)

lemma sdu_rx_consumed_side:
  "snd_side (dtp (fst (rlite_normal_sdu_rx_consumed K E a f rb))) = snd_side (dtp f) \<and>
   cfg (fst (rlite_normal_sdu_rx_consumed K E a f rb)) = cfg f"
  by (simp add: rlite_normal_sdu_rx_consumed_def split_beta)

lemma snd_inact_tmr_cb_side:
  "snd_side (dtp (snd_inact_tmr_cb f)) = snd_side (dtp f) \<and> cfg (snd_inact_tmr_cb f) = cfg f"
  by (simp add: snd_inact_tmr_cb_def)

lemma flow_init_inv:
  assumes "cwq (dtp f0) = []" and "rtxq (dtp f0) = []"
  shows "snd_inv (rlite_normal_flow_init K mpl f0)"
  using assms by (simp add: rlite_normal_flow_init_def snd_inv_def Let_def)

lemma sdu_write_locked_summary:
  assumes "f' = fst (snd (sdu_write_locked K E a f rb))"
    and "s = next_seq_num_to_send (dtp f)"
  shows
   "cfg f' = cfg f \<and> snd_rwe (dtp f') = snd_rwe (dtp f) \<and>
    (snd_side (dtp f') = snd_side (dtp f) \<or>
     next_seq_num_to_send (dtp f') = s + 1 \<and>
     ((\<not> dtcp_present (cfg f) \<and> cwq (dtp f') = cwq (dtp f) \<and> rtxq (dtp f') = rtxq (dtp f) \<and>
        snd_lwe (dtp f') = s + 1) \<or>
      (dtcp_present (cfg f) \<and> fc_type (fc (dtcp (cfg f))) = RLITE_FC_T_WIN \<and>
        s > snd_rwe (dtp f) \<and> seqnums (cwq (dtp f')) = seqnums (cwq (dtp f)) @ [s] \<and>
        rtxq (dtp f') = rtxq (dtp f) \<and> snd_lwe (dtp f') = snd_lwe (dtp f)) \<or>
      (dtcp_present (cfg f) \<and> fc_type (fc (dtcp (cfg f))) = RLITE_FC_T_WIN \<and>
        \<not> s > snd_rwe (dtp f) \<and> cwq (dtp f') = cwq (dtp f) \<and> snd_lwe (dtp f') = s + 1 \<and>
        (seqnums (rtxq (dtp f')) = seqnums (rtxq (dtp f)) \<or>
         seqnums (rtxq (dtp f')) = seqnums (rtxq (dtp f)) @ [s])) \<or>
      (dtcp_present (cfg f) \<and> fc_type (fc (dtcp (cfg f))) \<noteq> RLITE_FC_T_WIN \<and>
        cwq (dtp f') = cwq (dtp f) \<and> snd_lwe (dtp f') = snd_lwe (dtp f) \<and>
        (seqnums (rtxq (dtp f')) = seqnums (rtxq (dtp f)) \<or>
         seqnums (rtxq (dtp f')) = seqnums (rtxq (dtp f)) @ [s]))))"
  unfolding assms
  by (auto simp: sdu_write_locked_def rlite_rtxq_push_def rlite_buf_clone_def Let_def
                 dt_pci_stamp_def snd_side_def
           split: option.splits if_splits prod.splits sum.splits)


lemma word_less_inc_trans: "(x::64 word) < s \<Longrightarrow> s \<noteq> - 1 \<Longrightarrow> x < s + 1"
  using word_not_max_less_inc [of s] by simp

lemma word_le_inc_trans: "(x::64 word) \<le> s \<Longrightarrow> s \<noteq> - 1 \<Longrightarrow> x \<le> s + 1"
  using word_not_max_less_inc [of s] by simp

lemma sdu_write_locked_inv:
  assumes inv: "snd_inv f" and nw: "next_seq_num_to_send (dtp f) \<noteq> - 1"
  shows "snd_inv (fst (snd (sdu_write_locked K E a f rb)))"
proof -
  define f' where "f' = fst (snd (sdu_write_locked K E a f rb))"
  define s where "s = next_seq_num_to_send (dtp f)"
  note sm = sdu_write_locked_summary [OF f'_def s_def]
  have c: "cfg f' = cfg f" and rw: "snd_rwe (dtp f') = snd_rwe (dtp f)" using sm by simp_all
  have srt: "sorted_wrt (<) (seqnums (rtxq (dtp f)) @ seqnums (cwq (dtp f)))"
    and below: "\<forall>x \<in> set (seqnums (rtxq (dtp f)) @ seqnums (cwq (dtp f))). x < s"
    and lw: "snd_lwe (dtp f) \<le> s"
    and hd: "cwq (dtp f) \<noteq> [] \<longrightarrow>
               snd_lwe (dtp f) \<le> hd (seqnums (cwq (dtp f))) \<and> snd_rwe (dtp f) < s"
    and nocwq: "\<not> dtcp_present (cfg f) \<or> fc_type (fc (dtcp (cfg f))) \<noteq> RLITE_FC_T_WIN \<longrightarrow>
                 cwq (dtp f) = []"
    using inv by (simp_all add: snd_inv_def s_def)
  have s1: "s < s + 1" using nw by (simp add: s_def word_not_max_less_inc)
  have below': "\<forall>x \<in> set (seqnums (rtxq (dtp f)) @ seqnums (cwq (dtp f))). x < s + 1"
    using below s1 by (auto intro: less_trans)
  consider
      (same) "snd_side (dtp f') = snd_side (dtp f)"
    | (nodtcp) "next_seq_num_to_send (dtp f') = s + 1" "\<not> dtcp_present (cfg f)"
        "cwq (dtp f') = cwq (dtp f)" "rtxq (dtp f') = rtxq (dtp f)" "snd_lwe (dtp f') = s + 1"
    | (closed) "next_seq_num_to_send (dtp f') = s + 1" "dtcp_present (cfg f)"
        "fc_type (fc (dtcp (cfg f))) = RLITE_FC_T_WIN" "s > snd_rwe (dtp f)"
        "seqnums (cwq (dtp f')) = seqnums (cwq (dtp f)) @ [s]"
        "rtxq (dtp f') = rtxq (dtp f)" "snd_lwe (dtp f') = snd_lwe (dtp f)"
    | (window) "next_seq_num_to_send (dtp f') = s + 1" "\<not> s > snd_rwe (dtp f)"
        "cwq (dtp f') = cwq (dtp f)" "snd_lwe (dtp f') = s + 1"
        "seqnums (rtxq (dtp f')) = seqnums (rtxq (dtp f)) \<or>
         seqnums (rtxq (dtp f')) = seqnums (rtxq (dtp f)) @ [s]"
    | (nowin) "next_seq_num_to_send (dtp f') = s + 1"
        "fc_type (fc (dtcp (cfg f))) \<noteq> RLITE_FC_T_WIN"
        "cwq (dtp f') = cwq (dtp f)" "snd_lwe (dtp f') = snd_lwe (dtp f)"
        "seqnums (rtxq (dtp f')) = seqnums (rtxq (dtp f)) \<or>
         seqnums (rtxq (dtp f')) = seqnums (rtxq (dtp f)) @ [s]"
    using sm by blast
  then have "snd_inv f'"
  proof cases
    case same
    then show ?thesis using inv c by (intro snd_inv_side [of f f'])
  next
    case nodtcp
    then have e: "cwq (dtp f) = []" using nocwq by simp
    show ?thesis using nodtcp e srt below' c rw by (simp add: snd_inv_def)
  next
    case closed
    have ne: "cwq (dtp f') \<noteq> []" using closed(5) seqnums_simps(4) [of "cwq (dtp f')"] by simp
    have st: "sorted_wrt (<) (seqnums (rtxq (dtp f)) @ seqnums (cwq (dtp f)) @ [s])"
      using srt below by (auto simp: sorted_wrt_append)
    have h: "snd_lwe (dtp f) \<le> hd (seqnums (cwq (dtp f)) @ [s])"
      using hd lw by (cases "cwq (dtp f)") simp_all
    have "snd_rwe (dtp f) < s + 1" using closed(4) s1 by (rule less_trans)
    moreover have "snd_lwe (dtp f) \<le> s + 1" using lw s1 by simp
    ultimately show ?thesis using closed st h below' s1 c rw ne
      by (simp add: snd_inv_def)
  next
    case window
    then have e: "cwq (dtp f) = []" using hd by auto
    have st: "sorted_wrt (<) (seqnums (rtxq (dtp f)) @ [s])"
      using srt below by (auto simp: sorted_wrt_append)
    from window(5) show ?thesis
    proof
      assume "seqnums (rtxq (dtp f')) = seqnums (rtxq (dtp f))"
      then show ?thesis using window e srt below' c rw by (simp add: snd_inv_def)
    next
      assume "seqnums (rtxq (dtp f')) = seqnums (rtxq (dtp f)) @ [s]"
      then show ?thesis using window e st below' s1 c rw by (simp add: snd_inv_def)
    qed
  next
    case nowin
    then have e: "cwq (dtp f) = []" using nocwq by simp
    have st: "sorted_wrt (<) (seqnums (rtxq (dtp f)) @ [s])"
      using srt below by (auto simp: sorted_wrt_append)
    have l: "snd_lwe (dtp f) \<le> s + 1" using lw s1 by simp
    from nowin(5) show ?thesis
    proof
      assume "seqnums (rtxq (dtp f')) = seqnums (rtxq (dtp f))"
      then show ?thesis using nowin e srt below' l c rw by (simp add: snd_inv_def)
    next
      assume "seqnums (rtxq (dtp f')) = seqnums (rtxq (dtp f)) @ [s]"
      then show ?thesis using nowin e st below' s1 l c rw by (simp add: snd_inv_def)
    qed
  qed
  then show ?thesis by (simp add: f'_def)
qed

text \<open>
  The loop over \<open>cwq\<close> keeps the order: with \<open>N\<close> a bound above every sequence
  number queued, the queues before and after the loop are sorted as one list, and
  \<open>snd_lwe\<close> stays at or below the first buffer left in \<open>cwq\<close>.
\<close>

lemma cwq_drain_inv:
  assumes "sorted_wrt (<) (seqnums (rtxq d) @ seqnums q)"
    and "\<forall>x \<in> set (seqnums (rtxq d) @ seqnums q). x < N"
    and "q \<noteq> [] \<longrightarrow> snd_lwe d \<le> hd (seqnums q)"
    and "snd_lwe d \<le> N"
  shows "sorted_wrt (<) (seqnums (rtxq (fst (cwq_drain E r q d))) @
                         seqnums (drop (length (snd (cwq_drain E r q d))) q)) \<and>
         (\<forall>x \<in> set (seqnums (rtxq (fst (cwq_drain E r q d))) @
                     seqnums (drop (length (snd (cwq_drain E r q d))) q)). x < N) \<and>
         (drop (length (snd (cwq_drain E r q d))) q \<noteq> [] \<longrightarrow>
            snd_lwe (fst (cwq_drain E r q d)) \<le>
              hd (seqnums (drop (length (snd (cwq_drain E r q d))) q))) \<and>
         snd_lwe (fst (cwq_drain E r q d)) \<le> N"
  using assms
proof (induction q arbitrary: d)
  case Nil
  then show ?case by simp
next
  case (Cons b q)
  show ?case
  proof (cases "snd_rwe d \<le> snd_lwe d")
    case True
    then show ?thesis using Cons.prems by simp
  next
    case False
    let ?d1 = "cwq_pop E r q b d"
    have lb: "snd_lwe d \<le> seqnum (pci b)" using Cons.prems(3) by simp
    have bN: "seqnum (pci b) < N" using Cons.prems(2) by simp
    have p1: "sorted_wrt (<) (seqnums (rtxq ?d1) @ seqnums q)"
      using Cons.prems(1) by (auto simp: sorted_wrt_append)
    have p2: "\<forall>x \<in> set (seqnums (rtxq ?d1) @ seqnums q). x < N"
      using Cons.prems(2) by auto
    have p3: "q \<noteq> [] \<longrightarrow> snd_lwe ?d1 \<le> hd (seqnums q)"
    proof
      assume ne: "q \<noteq> []"
      then have "hd (seqnums q) \<in> set (seqnums q)" by simp
      then have "seqnum (pci b) < hd (seqnums q)"
        using Cons.prems(1) by (auto simp: sorted_wrt_append)
      with lb have "snd_lwe d < hd (seqnums q)" by simp
      then show "snd_lwe ?d1 \<le> hd (seqnums q)" by (simp add: inc_le)
    qed
    have p4: "snd_lwe ?d1 \<le> N"
      using lb bN by (simp add: inc_le)
    from Cons.IH [OF p1 p2 p3 p4] show ?thesis using False by (simp add: split_beta)
  qed
qed

lemma sdu_rx_ctrl_fc_cfg_inv:
  assumes inv: "snd_inv f"
  shows "snd_inv (f\<lparr>dtp := fst (sdu_rx_ctrl_fc K E (cfg f) p (dtp f))\<rparr>)"
proof (cases "pdu_type p AND PDU_T_FC_BIT K = 0 \<or> new_rwe p < snd_rwe (dtp f)")
  case True
  then show ?thesis using inv by (simp add: sdu_rx_ctrl_fc_ignored)
next
  case False
  let ?d = "dtp f"
  let ?dd = "?d\<lparr>snd_rwe := new_rwe p\<rparr>"
  let ?r = "cwq_drain E (rtx_control (dtcp (cfg f))) (cwq ?d) ?dd"
  let ?n = "length (snd ?r)"
  let ?N = "next_seq_num_to_send ?d"
  have eq: "sdu_rx_ctrl_fc K E (cfg f) p ?d = ?r" using False by (simp add: sdu_rx_ctrl_fc_update)
  have a1: "sorted_wrt (<) (seqnums (rtxq ?dd) @ seqnums (cwq ?d))"
    and a2: "\<forall>x \<in> set (seqnums (rtxq ?dd) @ seqnums (cwq ?d)). x < ?N"
    and a3: "cwq ?d \<noteq> [] \<longrightarrow> snd_lwe ?dd \<le> hd (seqnums (cwq ?d))"
    and a4: "snd_lwe ?dd \<le> ?N"
    using inv by (simp_all add: snd_inv_def)
  note J = cwq_drain_inv [OF a1 a2 a3 a4, of E "rtx_control (dtcp (cfg f))"]
  have cq: "cwq (fst ?r) = drop ?n (cwq ?d)" by (rule cwq_drain_cwq) simp
  have nx: "next_seq_num_to_send (fst ?r) = ?N" and rw: "snd_rwe (fst ?r) = new_rwe p"
    using cwq_drain_frame [of E "rtx_control (dtcp (cfg f))" "cwq ?d" ?dd] by simp_all
  have lw: "snd_lwe (fst ?r) = snd_lwe ?d + of_nat ?n"
    using cwq_drain_snd_lwe [of E "rtx_control (dtcp (cfg f))" "cwq ?d" ?dd] by simp
  have cl: "cwq (fst ?r) \<noteq> [] \<longrightarrow> snd_rwe (fst ?r) < ?N"
  proof
    assume ne: "cwq (fst ?r) \<noteq> []"
    then have "?n < length (cwq ?d)" using cq by simp
    from cwq_drain_closed [OF this] have "new_rwe p \<le> snd_lwe (fst ?r)" using lw by simp
    moreover have "snd_lwe (fst ?r) \<le> hd (seqnums (drop ?n (cwq ?d)))" using J ne cq by simp
    moreover have "hd (seqnums (drop ?n (cwq ?d))) \<in> set (seqnums (drop ?n (cwq ?d)))"
      using ne cq by simp
    then have "hd (seqnums (drop ?n (cwq ?d))) < ?N" using J by simp
    ultimately show "snd_rwe (fst ?r) < ?N" using rw by simp
  qed
  have cf: "\<not> dtcp_present (cfg f) \<or> fc_type (fc (dtcp (cfg f))) \<noteq> RLITE_FC_T_WIN \<longrightarrow>
              cwq (fst ?r) = []"
    using inv cq by (auto simp: snd_inv_def)
  show ?thesis unfolding eq using J cl cf by (simp add: snd_inv_def cq nx)
qed

lemma sorted_seqnums_dropWhile:
  assumes "sorted_wrt (<) (seqnums xs @ ys)"
  shows "sorted_wrt (<) (seqnums (dropWhile P xs) @ ys)"
  using assms by (induction xs) (auto simp: sorted_wrt_append)

lemma sdu_rx_ctrl_ack_inv:
  assumes inv: "snd_inv f"
  shows "snd_inv (f\<lparr>dtp := fst (sdu_rx_ctrl_ack K p (dtp f))\<rparr>)"
proof -
  let ?d' = "fst (sdu_rx_ctrl_ack K p (dtp f))"
  note fr = sdu_rx_ctrl_ack_frame [of K p "dtp f"]
  have "rtxq ?d' = rtxq (dtp f) \<or> (\<exists>P. rtxq ?d' = dropWhile P (rtxq (dtp f)))"
    by (auto simp: sdu_rx_ctrl_ack_rtxq)
  then show ?thesis
  proof
    assume "rtxq ?d' = rtxq (dtp f)"
    then show ?thesis using inv fr by (simp add: snd_inv_def)
  next
    assume "\<exists>P. rtxq ?d' = dropWhile P (rtxq (dtp f))"
    then obtain P where e: "rtxq ?d' = dropWhile P (rtxq (dtp f))" ..
    have "set (seqnums (dropWhile P (rtxq (dtp f)))) \<subseteq> set (seqnums (rtxq (dtp f)))"
      by (auto simp: seqnums_def dest: set_dropWhileD)
    then show ?thesis using inv fr e
      by (auto simp: snd_inv_def intro: sorted_seqnums_dropWhile)
  qed
qed

lemma sdu_rx_ctrl_inv:
  assumes inv: "snd_inv f"
  shows "snd_inv (fst (sdu_rx_ctrl K E f rb))"
proof (cases "pdu_type (pci rb) AND PDU_T_CTRL_MASK K = PDU_T_CTRL_MASK K \<and>
              \<not> ctrl_duplicate (dtp f) (seqnum (pci rb))")
  case False
  then show ?thesis using inv by (auto simp: sdu_rx_ctrl_def Let_def)
next
  case True
  let ?f0 = "f\<lparr>dtp := (dtp f)\<lparr>last_ctrl_seq_num_rcvd := seqnum (pci rb)\<rparr>\<rparr>"
  let ?f1 = "?f0\<lparr>dtp := fst (sdu_rx_ctrl_fc K E (cfg ?f0) (pci rb) (dtp ?f0))\<rparr>"
  let ?f2 = "?f1\<lparr>dtp := fst (sdu_rx_ctrl_ack K (pci rb) (dtp ?f1))\<rparr>"
  have "snd_inv ?f0" using inv by (simp add: snd_inv_def)
  then have "snd_inv ?f1" by (rule sdu_rx_ctrl_fc_cfg_inv)
  then have "snd_inv ?f2" by (rule sdu_rx_ctrl_ack_inv)
  moreover have "fst (sdu_rx_ctrl K E f rb) = ?f2"
    using True by (simp add: sdu_rx_ctrl_accepted Let_def)
  ultimately show ?thesis by simp
qed

text \<open>The retransmission timer changes deadlines, not the queues.\<close>

lemma seqnums_restamp:
  "c < length q \<Longrightarrow> seqnums (q[c := (q ! c)\<lparr>rtx_jiffies := t\<rparr>]) = seqnums q"
  by (simp add: seqnums_def map_update list_update_same_conv)

lemma rtx_scan_side:
  "rtx_scan fuel E i c d rrbq = Some (d', rrbq') \<Longrightarrow>
     seqnums (rtxq d') = seqnums (rtxq d) \<and> cwq d' = cwq d \<and>
     next_seq_num_to_send d' = next_seq_num_to_send d \<and>
     snd_lwe d' = snd_lwe d \<and> snd_rwe d' = snd_rwe d"
proof (induction fuel E i c d rrbq rule: rtx_scan.induct)
  case (1 E i c d rrbq)
  then show ?case by simp
next
  case (2 fuel E i c d rrbq)
  show ?case
  proof (cases "c \<ge> length (rtxq d)")
    case True
    then show ?thesis using 2 by simp
  next
    case False
    then have c: "c < length (rtxq d)" by simp
    show ?thesis
    proof (cases "jiffies E \<ge> rtx_jiffies (rtxq d ! c)")
      case old: False
      then show ?thesis using "2.prems" c by (auto simp: Let_def split: if_splits)
    next
      case True
      let ?rb' = "(rtxq d ! c)\<lparr>rtx_jiffies := rtx_jiffies (rtxq d ! c) + rtx_tmr_int d\<rparr>"
      let ?d' = "d\<lparr>rtxq := (rtxq d)[c := ?rb']\<rparr>"
      have s: "seqnums (rtxq ?d') = seqnums (rtxq d)" using c by (simp add: seqnums_restamp)
      show ?thesis
      proof (cases "Suc c = i")
        case stop: True
        then show ?thesis using "2.prems" c True s by (auto simp: Let_def)
      next
        case go: False
        have "rtx_scan fuel E i (Suc c) ?d'
                (case rlite_buf_clone E ?rb' of None \<Rightarrow> rrbq | Some crb \<Rightarrow> rrbq @ [crb]) =
              Some (d', rrbq')"
          using "2.prems" c True go by (simp add: Let_def)
        from "2.IH"(2) [OF False refl True refl refl refl go this] show ?thesis using s by simp
      qed
    qed
  qed
qed

lemma rtx_tmr_cb_inv:
  assumes inv: "snd_inv f" and r: "rtx_tmr_cb fuel E f = Some (f', effs)"
  shows "snd_inv f'"
proof (cases "rtx_tmr_next (dtp f)")
  case None
  then have "f' = f\<lparr>dtp := (dtp f)\<lparr>rtx_tmr := None\<rparr>\<rparr>" using r by (simp add: rtx_tmr_cb_def)
  then show ?thesis using inv by (simp add: snd_inv_def)
next
  case (Some i)
  then obtain d' rrbq where s: "rtx_scan fuel E i i ((dtp f)\<lparr>rtx_tmr := None\<rparr>) [] = Some (d', rrbq)"
    and f': "f' = f\<lparr>dtp := d'\<rparr>"
    using r by (auto simp: rtx_tmr_cb_def Let_def split: if_splits option.splits)
  from rtx_scan_side [OF s] show ?thesis using inv f' by (simp add: snd_inv_def)
qed

text \<open>The invariant holds at every reachable state.\<close>

lemma reachable_snd_inv: "reachable K f \<Longrightarrow> snd_inv f"
proof (induction rule: reachable.induct)
  case (after_init f0 max_pdu_life)
  then show ?case by (simp add: flow_init_inv)
next
  case (after_write f E a rb)
  then show ?case by (simp add: sdu_write_locked_inv)
next
  case (after_rx_data f E a rb)
  then show ?case using sdu_rx_data_side [of K E a f rb] by (auto intro: snd_inv_side [of f])
next
  case (after_rx_ctrl f E rb)
  then show ?case by (simp add: sdu_rx_ctrl_inv)
next
  case (after_rx_consumed f E a rb)
  then show ?case using sdu_rx_consumed_side [of K E a f rb]
    by (auto intro: snd_inv_side [of f])
next
  case (after_snd_inact f)
  then show ?case using snd_inact_tmr_cb_side [of f] by (auto intro: snd_inv_side [of f])
next
  case (after_rtx_tmr f fuel E f' effs)
  then show ?case by (auto intro: rtx_tmr_cb_inv [of f fuel E f' effs])
qed

lemma snd_inv_rtxq_sorted:
  assumes "snd_inv f"
  shows "sorted_wrt (<) (seqnums (rtxq (dtp f))) \<and> distinct (seqnums (rtxq (dtp f)))"
proof -
  have "sorted_wrt (<) (seqnums (rtxq (dtp f)))"
    using assms by (simp add: snd_inv_def sorted_wrt_append)
  then show ?thesis by (simp add: strict_sorted_iff)
qed

text \<open>
  Claim C5. At every reachable state of a flow the sequence numbers of \<open>rtxq\<close>,
  read from the head, are strictly ascending, so that no two entries share a
  sequence number. The queue is strictly ascending again after the send path, with
  its clone-into-\<open>rtxq\<close> step, has run on such a state (for a sequence number below
  \<open>2^64 - 1\<close>), after the \<open>cwq\<close> drain of a window update, after the removals of an
  ACK, and after a whole control PDU. The reachable states are those of the
  relation \<open>reachable\<close>, which follows the writes up to the sequence number
  \<open>2^64 - 1\<close>.
\<close>

theorem rtxq_strictly_sorted:
  assumes "reachable K f"
  shows "sorted_wrt (<) (seqnums (rtxq (dtp f))) \<and> distinct (seqnums (rtxq (dtp f))) \<and>
         (next_seq_num_to_send (dtp f) \<noteq> - 1 \<longrightarrow>
            sorted_wrt (<) (seqnums (rtxq (dtp (fst (snd (sdu_write_locked K E a f rb))))))) \<and>
         sorted_wrt (<) (seqnums (rtxq (fst (sdu_rx_ctrl_fc K E (cfg f) p (dtp f))))) \<and>
         sorted_wrt (<) (seqnums (rtxq (fst (sdu_rx_ctrl_ack K p (dtp f))))) \<and>
         sorted_wrt (<) (seqnums (rtxq (dtp (fst (sdu_rx_ctrl K E f crb)))))"
proof -
  have inv: "snd_inv f" using assms by (rule reachable_snd_inv)
  have w: "next_seq_num_to_send (dtp f) \<noteq> - 1 \<longrightarrow>
            sorted_wrt (<) (seqnums (rtxq (dtp (fst (snd (sdu_write_locked K E a f rb))))))"
    using snd_inv_rtxq_sorted [OF sdu_write_locked_inv [OF inv, of K E a rb]] by simp
  have fc: "sorted_wrt (<) (seqnums (rtxq (fst (sdu_rx_ctrl_fc K E (cfg f) p (dtp f)))))"
    using snd_inv_rtxq_sorted [OF sdu_rx_ctrl_fc_cfg_inv [OF inv, of K E p]] by simp
  have ack: "sorted_wrt (<) (seqnums (rtxq (fst (sdu_rx_ctrl_ack K p (dtp f)))))"
    using snd_inv_rtxq_sorted [OF sdu_rx_ctrl_ack_inv [OF inv, of K p]] by simp
  have ctrl: "sorted_wrt (<) (seqnums (rtxq (dtp (fst (sdu_rx_ctrl K E f crb)))))"
    using snd_inv_rtxq_sorted [OF sdu_rx_ctrl_inv [OF inv, of K E crb]] by simp
  from snd_inv_rtxq_sorted [OF inv] w fc ack ctrl show ?thesis by simp
qed

theorem rtxq_strictly_sorted_witness:
  "reachable example_consts example_sent5 \<and>
   next_seq_num_to_send (dtp example_sent5) \<noteq> - 1 \<and>
   seqnums (rtxq (dtp example_sent5)) \<noteq> [] \<and>
   sorted_wrt (<) (seqnums (rtxq (dtp example_sent5))) \<and>
   distinct (seqnums (rtxq (dtp example_sent5))) \<and>
   sorted_wrt (<) (seqnums (rtxq (dtp (fst (snd (sdu_write_locked example_consts (example_env 5) 1
                                                  example_sent5 (example_buf 0 0))))))) \<and>
   sorted_wrt (<) (seqnums (rtxq (fst (sdu_rx_ctrl_fc example_consts (example_env 5)
                                         (cfg example_sent5) (pci (example_fc_pdu 1 9))
                                         (dtp example_sent5))))) \<and>
   sorted_wrt (<) (seqnums (rtxq (fst (sdu_rx_ctrl_ack example_consts (pci (example_fc_pdu 1 9))
                                         (dtp example_sent5))))) \<and>
   sorted_wrt (<) (seqnums (rtxq (dtp (fst (sdu_rx_ctrl example_consts (example_env 5)
                                             example_sent5 (example_ack_pdu 1 1))))))"
proof -
  let ?f = "example_flow True True 0"
  have r0: "reachable example_consts (example_sends 0 ?f)"
    unfolding example_flow_def example_sends.simps
    by (rule reachable.after_init) (simp_all add: blank_flow_def blank_dtp_def)
  have g0: "next_seq_num_to_send (dtp (example_sends 0 ?f)) \<noteq> - 1" by code_simp
  have r1: "reachable example_consts (example_sends (Suc 0) ?f)"
    unfolding example_sends.simps(2) by (rule reachable.after_write [OF r0 g0])
  have g1: "next_seq_num_to_send (dtp (example_sends (Suc 0) ?f)) \<noteq> - 1" by code_simp
  have r2: "reachable example_consts (example_sends (Suc (Suc 0)) ?f)"
    unfolding example_sends.simps(2) [of "Suc 0"] by (rule reachable.after_write [OF r1 g1])
  have g2: "next_seq_num_to_send (dtp (example_sends (Suc (Suc 0)) ?f)) \<noteq> - 1" by code_simp
  have r3: "reachable example_consts (example_sends (Suc (Suc (Suc 0))) ?f)"
    unfolding example_sends.simps(2) [of "Suc (Suc 0)"]
    by (rule reachable.after_write [OF r2 g2])
  have g3: "next_seq_num_to_send (dtp (example_sends (Suc (Suc (Suc 0))) ?f)) \<noteq> - 1"
    by code_simp
  have r4: "reachable example_consts (example_sends (Suc (Suc (Suc (Suc 0)))) ?f)"
    unfolding example_sends.simps(2) [of "Suc (Suc (Suc 0))"]
    by (rule reachable.after_write [OF r3 g3])
  have g4: "next_seq_num_to_send (dtp (example_sends (Suc (Suc (Suc (Suc 0)))) ?f)) \<noteq> - 1"
    by code_simp
  have r5: "reachable example_consts (example_sends (Suc (Suc (Suc (Suc (Suc 0))))) ?f)"
    unfolding example_sends.simps(2) [of "Suc (Suc (Suc (Suc 0)))"]
    by (rule reachable.after_write [OF r4 g4])
  have n5: "5 = Suc (Suc (Suc (Suc (Suc 0))))" by simp
  have r: "reachable example_consts example_sent5"
    unfolding example_sent5_def n5 by (rule r5)
  have g: "next_seq_num_to_send (dtp example_sent5) \<noteq> - 1" by code_simp
  have ne: "seqnums (rtxq (dtp example_sent5)) \<noteq> []" by code_simp
  from rtxq_strictly_sorted [OF r, where E = "example_env 5" and a = 1 and rb = "example_buf 0 0"
      and p = "pci (example_fc_pdu 1 9)" and crb = "example_ack_pdu 1 1"] r g ne
  show ?thesis by blast
qed

end
